theory Spec2Isabelle
  imports Complex_Main "HOL-Library.Word"
begin

unbundle bit_operations_syntax

section \<open>Data model of combined-latency-jitter.c\<close>

text \<open>
  The tool exchanges \<^verbatim>\<open>packet_t\<close> records: five 64-bit timestamps and counters, a 32-bit
  declared size and a C99 flexible array member \<^verbatim>\<open>payload[]\<close>. The record below is the
  in-memory view; \<open>payload\<close> holds every byte of the allocation that lies behind the
  \<^verbatim>\<open>packet_size\<close> field, indexed as the C code indexes \<^verbatim>\<open>packet->payload[i]\<close>.

  Layout (any ABI that aligns \<^verbatim>\<open>uint64_t\<close> to 8 bytes, little endian as on x86-64): the
  fields take 5 * 8 + 4 = 44 bytes, so \<^verbatim>\<open>payload\<close> starts at offset 44, and
  \<^verbatim>\<open>sizeof(packet_t)\<close> is 44 rounded up to a multiple of 8.
\<close>

type_synonym byte = "8 word"
type_synonym u32 = "32 word"
type_synonym u64 = "64 word"

record packet_t =
  seq_num :: u64
  client_send :: u64
  server_recv :: u64
  server_send :: u64
  client_recv :: u64
  packet_size :: u32
  payload :: "byte list"

definition payload_offset :: nat where
  "payload_offset = 44"

definition sizeof_packet_t :: nat where
  "sizeof_packet_t = 48"

definition MIN_PACKET_SIZE :: int where
  "MIN_PACKET_SIZE = 64"

definition MAX_PACKET_SIZE :: int where
  "MAX_PACKET_SIZE = 8192"

definition INT_MAX :: nat where
  "INT_MAX = 2 ^ 31 - 1"

text \<open>What goes wrong outside the C semantics that the functions below can return.\<close>

datatype fault =
    AllocFailed    \<comment> \<open>\<^verbatim>\<open>malloc\<close> returned NULL: \<^verbatim>\<open>perror\<close>, then \<^verbatim>\<open>exit(EXIT_FAILURE)\<close>\<close>
  | OutOfBounds    \<comment> \<open>an access behind the end of the buffer\<close>
  | IntOverflow    \<comment> \<open>\<^verbatim>\<open>i++\<close> on an \<^verbatim>\<open>int\<close> equal to \<^verbatim>\<open>INT_MAX\<close>\<close>

text \<open>\<open>and_then r f\<close> goes on with \<open>f\<close> unless \<open>r\<close> is a fault.\<close>

definition and_then :: "fault + 'a \<Rightarrow> ('a \<Rightarrow> fault + 'b) \<Rightarrow> fault + 'b" where
  "and_then r f = (case r of Inl e \<Rightarrow> Inl e | Inr x \<Rightarrow> f x)"

subsection \<open>The bytes of a packet in memory and on the wire\<close>

text \<open>
  \<^verbatim>\<open>send\<close> and \<open>recv\<close> copy raw struct memory, so the transport sees the packet as the
  byte sequence \<open>wire_of\<close>; \<open>of_wire\<close> reads the fields back from such a sequence.
\<close>

definition le_bytes :: "nat \<Rightarrow> 'a::len word \<Rightarrow> byte list" where
  "le_bytes n w = map (\<lambda>k. ucast (drop_bit (8 * k) w)) [0..<n]"

fun le_word :: "byte list \<Rightarrow> 'a::len word" where
  "le_word [] = 0"
| "le_word (b # bs) = ucast b OR push_bit 8 (le_word bs)"

definition wire_of :: "packet_t \<Rightarrow> byte list" where
  "wire_of p =
     le_bytes 8 (seq_num p) @ le_bytes 8 (client_send p) @ le_bytes 8 (server_recv p) @
     le_bytes 8 (server_send p) @ le_bytes 8 (client_recv p) @ le_bytes 4 (packet_size p) @
     payload p"

definition of_wire :: "byte list \<Rightarrow> packet_t" where
  "of_wire bs =
     \<lparr> seq_num = le_word (take 8 bs),
       client_send = le_word (take 8 (drop 8 bs)),
       server_recv = le_word (take 8 (drop 16 bs)),
       server_send = le_word (take 8 (drop 24 bs)),
       client_recv = le_word (take 8 (drop 32 bs)),
       packet_size = le_word (take 4 (drop 40 bs)),
       payload = drop payload_offset bs \<rparr>"

text \<open>
  \<open>copy_in m off d\<close>: the memory \<open>m\<close> after the bytes \<open>d\<close> were copied to offset \<open>off\<close> of
  it. \<open>store_bytes p off d\<close> is the buffer \<open>p\<close> after
  \<^verbatim>\<open>recv(fd, ((char*)p) + off, n, 0)\<close> delivered the bytes \<open>d\<close>; \<open>load_bytes p n\<close> are the
  bytes that \<^verbatim>\<open>send(fd, p, n, 0)\<close> reads from the buffer. An access behind the end of the
  allocation is a fault in both.
\<close>

definition copy_in :: "byte list \<Rightarrow> nat \<Rightarrow> byte list \<Rightarrow> byte list" where
  "copy_in m off d = take off m @ d @ drop (off + length d) m"

definition store_bytes :: "packet_t \<Rightarrow> nat \<Rightarrow> byte list \<Rightarrow> fault + packet_t" where
  "store_bytes p off d =
     (if off + length d \<le> length (wire_of p)
      then Inr (of_wire (copy_in (wire_of p) off d))
      else Inl OutOfBounds)"

definition load_bytes :: "packet_t \<Rightarrow> nat \<Rightarrow> fault + byte list" where
  "load_bytes p n =
     (if n \<le> length (wire_of p) then Inr (take n (wire_of p)) else Inl OutOfBounds)"

subsection \<open>create_packet and validate_packet\<close>

text \<open>
  Conversions of a C \<^verbatim>\<open>int\<close> (32 bits, here an \<open>int\<close> between \<open>- 2 ^ 31\<close> and \<open>2 ^ 31 - 1\<close>)
  to \<^verbatim>\<open>size_t\<close> (64 bits) and to \<^verbatim>\<open>uint32_t\<close>.
\<close>

definition to_size_t :: "int \<Rightarrow> nat" where
  "to_size_t x = nat (x mod 2 ^ 64)"

definition zero_packet :: "nat \<Rightarrow> packet_t" where
  "zero_packet n =
     \<lparr> seq_num = 0, client_send = 0, server_recv = 0, server_send = 0, client_recv = 0,
       packet_size = 0, payload = replicate n 0 \<rparr>"

text \<open>The loop \<^verbatim>\<open>for (int i = 0; i < n; i++) packet->payload[i] = (i % 256);\<close>\<close>

definition fill_pattern :: "nat \<Rightarrow> byte list \<Rightarrow> byte list" where
  "fill_pattern n pl = fold (\<lambda>i pl. pl[i := of_nat (i mod 256)]) [0..<n] pl"

text \<open>
  \<open>create_packet avail psize\<close>, with \<open>psize\<close> the C argument \<^verbatim>\<open>packet_size\<close>; \<open>avail\<close> is the
  largest request that \<^verbatim>\<open>malloc\<close> can satisfy when it is called. The comparison \<^verbatim>\<open>packet_size < sizeof(packet_t)\<close> is between an
  \<^verbatim>\<open>int\<close> and a \<^verbatim>\<open>size_t\<close>, so C converts \<^verbatim>\<open>packet_size\<close> to \<^verbatim>\<open>size_t\<close> first; so do
  \<^verbatim>\<open>malloc\<close>, \<^verbatim>\<open>memset\<close> and the loop bound \<^verbatim>\<open>packet_size - sizeof(packet_t)\<close>.
\<close>

definition create_packet :: "nat \<Rightarrow> int \<Rightarrow> fault + packet_t" where
  "create_packet avail psize =
     (let sz = (if to_size_t psize < sizeof_packet_t then int sizeof_packet_t
                else psize)
      in if avail < to_size_t sz then Inl AllocFailed
         else if INT_MAX < to_size_t sz - sizeof_packet_t then Inl IntOverflow
         else
           let p = (zero_packet (to_size_t sz - payload_offset))
                     \<lparr> packet_size := word_of_int sz \<rparr>
           in Inr (p \<lparr> payload := fill_pattern (to_size_t sz - sizeof_packet_t) (payload p) \<rparr>))"

text \<open>
  The loop of \<^verbatim>\<open>validate_packet\<close>, from index \<open>i\<close> on, with its early \<^verbatim>\<open>return 0\<close>:
  \<^verbatim>\<open>for (int i = 0; i < n; i++) if (packet->payload[i] != (i % 256)) return 0;\<close>
\<close>

function validate_loop :: "byte list \<Rightarrow> nat \<Rightarrow> nat \<Rightarrow> fault + bool" where
  "validate_loop pl n i =
     (if i < n then
        (if length pl \<le> i then Inl OutOfBounds
         else if unat (pl ! i) \<noteq> i mod 256 then Inr False
         else if i = INT_MAX then Inl IntOverflow
         else validate_loop pl n (Suc i))
      else Inr True)"
  by pat_completeness auto
termination
  by (relation "measure (\<lambda>(pl, n, i). n - i)") auto

declare validate_loop.simps [simp del]

text \<open>
  \<^verbatim>\<open>validate_packet\<close>; the pointer is taken to be valid (the callers never pass NULL).
\<close>

definition validate_packet :: "packet_t \<Rightarrow> fault + bool" where
  "validate_packet p =
     (if unat (packet_size p) < sizeof_packet_t then Inr False
      else validate_loop (payload p) (unat (packet_size p) - sizeof_packet_t) 0)"

subsection \<open>synchronize_clocks\<close>

text \<open>
  What one send followed by one receive did: the send failed (result below 0), the receive
  failed or timed out or met a closed connection (result at most 0), or the receive
  delivered bytes.
\<close>

datatype net_result = SendFailed | RecvFailed | Received "byte list"

text \<open>
  The surroundings of the ten rounds: the two readings of \<^verbatim>\<open>get_timestamp_usec\<close> of round
  \<open>i\<close>, and what the network did with the bytes sent in round \<open>i\<close>. The TCP and the UDP
  branch of the C function differ in the system calls only, so one model serves both.
\<close>

record sync_env =
  clock_t1 :: "nat \<Rightarrow> u64"
  clock_t4 :: "nat \<Rightarrow> u64"
  exchange :: "nat \<Rightarrow> byte list \<Rightarrow> net_result"

text \<open>
  The locals of the loop. \<^verbatim>\<open>int64_t\<close> values are kept as 64-bit words and read with
  \<open>sint\<close>; \<open>a <s b\<close> is the signed comparison.
\<close>

type_synonym i64 = "64 word"

record sync_state =
  offsets :: "i64 list"
  min_rtt :: i64
  best_round :: nat

definition SYNC_ROUNDS :: nat where
  "SYNC_ROUNDS = 10"

definition INT64_MAX :: i64 where
  "INT64_MAX = 0x7FFFFFFFFFFFFFFF"

text \<open>
  \<^verbatim>\<open>sync_packet.seq_num = 0xFFFFFFFF - i\<close>: the constant is an \<^verbatim>\<open>unsigned int\<close>, so the
  subtraction is a 32-bit one, and its result is widened to the 64-bit field.
\<close>

definition sync_seq_num :: "nat \<Rightarrow> u64" where
  "sync_seq_num i = ucast ((0xFFFFFFFF :: u32) - of_nat i)"

definition sync_packet_init :: "nat \<Rightarrow> u64 \<Rightarrow> packet_t" where
  "sync_packet_init i t1 =
     (zero_packet (sizeof_packet_t - payload_offset))
       \<lparr> seq_num := sync_seq_num i, packet_size := of_nat sizeof_packet_t, client_send := t1 \<rparr>"

text \<open>
  The body of the loop for round \<open>i\<close>. Every \<^verbatim>\<open>continue\<close> leaves the locals as they are.
  \<^verbatim>\<open>t1 .. t4\<close> are \<^verbatim>\<open>uint64_t\<close>, so the differences, their sum and the division by 2 are
  unsigned 64-bit operations; the results are then stored in \<^verbatim>\<open>int64_t\<close> variables.
\<close>

definition sync_round :: "sync_env \<Rightarrow> nat \<Rightarrow> sync_state \<Rightarrow> sync_state" where
  "sync_round env i st =
     (let t1 = clock_t1 env i;
          sync_packet = sync_packet_init i t1
      in case exchange env i (wire_of sync_packet) of
           SendFailed \<Rightarrow> st
         | RecvFailed \<Rightarrow> st
         | Received d \<Rightarrow>
             if d = [] then st
             else
               let echoed = of_wire (copy_in (wire_of sync_packet) 0 (take sizeof_packet_t d));
                   t4 = clock_t4 env i;
                   t2 = server_recv echoed;
                   t3 = server_send echoed;
                   rtt = (t4 - t1) - (t3 - t2);
                   offset = ((t2 - t1) + (t3 - t4)) div 2;
                   st' = st \<lparr> offsets := (offsets st)[i := offset] \<rparr>
               in if rtt <s min_rtt st then st' \<lparr> min_rtt := rtt, best_round := i \<rparr>
                  else st')"

text \<open>
  \<open>synchronize_clocks stack env is_client\<close>. The array \<^verbatim>\<open>int64_t offsets[SYNC_ROUNDS]\<close> is
  declared without an initialiser: \<open>stack\<close> is what its ten slots hold when the function
  is entered. The result is the returned \<^verbatim>\<open>int64_t\<close>.
\<close>

definition synchronize_clocks :: "i64 list \<Rightarrow> sync_env \<Rightarrow> bool \<Rightarrow> int" where
  "synchronize_clocks stack env is_client =
     (if \<not> is_client then 0
      else
        let st = fold (sync_round env) [0..<SYNC_ROUNDS]
                   \<lparr> offsets = stack, min_rtt = INT64_MAX, best_round = 0 \<rparr>
        in sint (offsets st ! best_round st))"

subsection \<open>The servers\<close>

text \<open>
  Bytes waiting on a stream socket, in the pieces in which the kernel hands them over:
  \<open>recv n\<close> returns at most \<open>n\<close> bytes of the first piece and leaves the rest of it queued.
  The empty queue is a peer that has closed (result 0); \<open>RecvError\<close> is a call that
  returned -1.
\<close>

datatype seg = Seg "byte list" | RecvError

fun recv :: "nat \<Rightarrow> seg list \<Rightarrow> int \<times> byte list \<times> seg list" where
  "recv n [] = (0, [], [])"
| "recv n (RecvError # q) = (- 1, [], q)"
| "recv n (Seg c # q) =
     (if length c \<le> n then (int (length c), c, q)
      else (int n, take n c, Seg (drop n c) # q))"

text \<open>The test \<^verbatim>\<open>packet_buffer->seq_num >= 0xFFFFFFFF - 20\<close> of the stream server.\<close>

definition is_sync_seq :: "u64 \<Rightarrow> bool" where
  "is_sync_seq s \<longleftrightarrow> ucast ((0xFFFFFFFF :: u32) - 20) \<le> s"

text \<open>
  One turn of the inner loop of \<^verbatim>\<open>run_tcp_server\<close>: \<open>Stop\<close> is \<^verbatim>\<open>break\<close>; \<open>Go\<close> carries the
  buffer, the bytes still queued, the bytes sent back and the new \<^verbatim>\<open>packet_count\<close>.
  \<^verbatim>\<open>remaining_bytes\<close> is an \<^verbatim>\<open>int\<close> computed from a 32-bit unsigned difference.
\<close>

datatype 'a turn = Stop | Go 'a

definition tcp_server_turn ::
  "packet_t \<Rightarrow> seg list \<Rightarrow> u64 \<Rightarrow> u64 \<Rightarrow> nat \<Rightarrow>
     fault + (packet_t \<times> seg list \<times> byte list \<times> nat) turn" where
  "tcp_server_turn packet_buffer inq now1 now2 packet_count =
     (case recv sizeof_packet_t inq of (bytes_received, d1, inq1) \<Rightarrow>
      if bytes_received \<le> 0 then Inr Stop
      else
        and_then (store_bytes packet_buffer 0 d1) (\<lambda>b1.
        if is_sync_seq (seq_num b1) then
          (let b2 = b1 \<lparr> server_recv := now1, server_send := now2 \<rparr>
           in and_then (load_bytes b2 sizeof_packet_t) (\<lambda>out.
              Inr (Go (b2, inq1, out, packet_count))))
        else
          (let remaining_bytes = sint (packet_size b1 - word_of_int bytes_received)
           in and_then
                (if 0 < remaining_bytes
                 then (case recv (nat remaining_bytes) inq1 of (k, d2, inq2) \<Rightarrow>
                         and_then (store_bytes b1 (nat bytes_received) d2) (\<lambda>b.
                         Inr (bytes_received + k, b, inq2)))
                 else Inr (bytes_received, b1, inq1))
                (\<lambda>(bytes_received', b2, inq2).
                   if bytes_received' \<le> 0 then Inr Stop
                   else
                     (let b3 = b2 \<lparr> server_recv := now1, server_send := now2 \<rparr>
                      in and_then (load_bytes b3 (unat (packet_size b3))) (\<lambda>out.
                         Inr (Go (b3, inq2, out, packet_count + 1))))))))"

text \<open>
  One turn of the loop of \<^verbatim>\<open>run_udp_server\<close> on the datagram \<open>inp\<close> (\<open>None\<close>: \<^verbatim>\<open>recvfrom\<close>
  failed). \<^verbatim>\<open>recvfrom\<close> is given \<^verbatim>\<open>MAX_PACKET_SIZE\<close> as the length of the buffer and cuts a
  longer datagram. The result is the buffer and, if \<^verbatim>\<open>sendto\<close> was called, the bytes handed
  to it.
\<close>

definition udp_server_turn ::
  "packet_t \<Rightarrow> byte list option \<Rightarrow> u64 \<Rightarrow> u64 \<Rightarrow> fault + (packet_t \<times> byte list option)" where
  "udp_server_turn packet_buffer inp now1 now2 =
     (case inp of
        None \<Rightarrow> Inr (packet_buffer, None)
      | Some dgram \<Rightarrow>
          (let d = take (nat MAX_PACKET_SIZE) dgram in
           if d = [] then Inr (packet_buffer, None)
           else
             and_then (store_bytes packet_buffer 0 d) (\<lambda>b1.
               let b2 = b1 \<lparr> server_recv := now1 \<rparr>;
                   b3 = b2 \<lparr> server_send := now2 \<rparr>
               in and_then (load_bytes b3 (unat (packet_size b3))) (\<lambda>out.
                  Inr (b3, Some out)))))"

subsection \<open>The clients\<close>

text \<open>
  One row of the CSV file; the C code keeps \<open>one_way_latency\<close> in \<^verbatim>\<open>latencies[]\<close> and \<open>rtt\<close>
  in \<^verbatim>\<open>rtts[]\<close>, so \<^verbatim>\<open>packets_received\<close> is the number of rows. The three measurements
  are C doubles, modelled as real numbers: the conversion of a 64-bit difference to
  \<^verbatim>\<open>double\<close> and the arithmetic on doubles are taken to be exact.
\<close>

record sample =
  smp_seq_num :: u64
  smp_packet_size :: u32
  one_way_latency :: real
  rtt :: real
  server_processing :: real

text \<open>
  Lines 649 to 661 (TCP) and 890 to 902 (UDP), which are the same text. The timestamps are
  \<^verbatim>\<open>uint64_t\<close> and \<^verbatim>\<open>clock_offset\<close> is converted to \<^verbatim>\<open>uint64_t\<close> by the subtraction, so each
  difference is an unsigned 64-bit one before it becomes a double.
\<close>

definition measure_sample :: "bool \<Rightarrow> i64 \<Rightarrow> packet_t \<Rightarrow> sample" where
  "measure_sample time_sync clock_offset p =
     (let proc = real (unat (server_send p - server_recv p));
          rt = real (unat (client_recv p - client_send p));
          lat = (if time_sync
                 then real (unat ((server_recv p - clock_offset) - client_send p))
                 else (rt - proc) / 2)
      in \<lparr> smp_seq_num = seq_num p, smp_packet_size = packet_size p,
           one_way_latency = lat, rtt = rt, server_processing = proc \<rparr>)"

text \<open>
  \<^verbatim>\<open>packet->seq_num = i + 1\<close> with the \<^verbatim>\<open>int\<close> loop counter \<open>i\<close>, which stays below
  \<^verbatim>\<open>num_packets\<close> and so below \<^verbatim>\<open>INT_MAX\<close>.
\<close>

definition data_seq_num :: "nat \<Rightarrow> u64" where
  "data_seq_num i = of_nat (i + 1)"

record client_state =
  packet :: packet_t
  samples :: "sample list"

record tcp_client_state = client_state +
  inq :: "seg list"

text \<open>
  The surroundings of a client: the clock readings before the send and after the receive
  of iteration \<open>i\<close>, and the network. On UDP the network answers the datagram sent in
  iteration \<open>i\<close> with a \<open>net_result\<close>; on TCP it appends pieces to the bytes queued on the
  socket.
\<close>

record udp_env =
  udp_now_send :: "nat \<Rightarrow> u64"
  udp_now_recv :: "nat \<Rightarrow> u64"
  udp_net :: "nat \<Rightarrow> byte list \<Rightarrow> net_result"

record tcp_env =
  tcp_now_send :: "nat \<Rightarrow> u64"
  tcp_now_recv :: "nat \<Rightarrow> u64"
  tcp_net :: "nat \<Rightarrow> byte list \<Rightarrow> seg list"

text \<open>
  Lines 623 to 638 of \<^verbatim>\<open>run_tcp_client\<close>: one \<^verbatim>\<open>recv\<close> for the header, then at most one
  \<^verbatim>\<open>recv\<close> for \<^verbatim>\<open>remaining_bytes\<close>. \<open>Stop\<close> is \<^verbatim>\<open>break\<close>; \<open>Go\<close> carries the buffer,
  \<^verbatim>\<open>bytes_received\<close> and the bytes still queued.
\<close>

definition tcp_receive :: "packet_t \<Rightarrow> seg list \<Rightarrow> fault + (packet_t \<times> int \<times> seg list) turn" where
  "tcp_receive p q =
     (case recv sizeof_packet_t q of (bytes_received, d1, q1) \<Rightarrow>
      if bytes_received \<le> 0 then Inr Stop
      else
        and_then (store_bytes p 0 d1) (\<lambda>p1.
          let remaining_bytes = sint (packet_size p1 - word_of_int bytes_received)
          in and_then
               (if 0 < remaining_bytes
                then (case recv (nat remaining_bytes) q1 of (k, d2, q2) \<Rightarrow>
                        and_then (store_bytes p1 (nat bytes_received) d2) (\<lambda>p2.
                        Inr (bytes_received + k, p2, q2)))
                else Inr (bytes_received, p1, q1))
               (\<lambda>(bytes_received', p2, q2).
                  if bytes_received' \<le> 0 then Inr Stop
                  else Inr (Go (p2, bytes_received', q2)))))"

text \<open>
  Iteration \<open>i\<close> of the loop of \<^verbatim>\<open>run_tcp_client\<close>. \<open>Stop\<close> is \<^verbatim>\<open>break\<close>: the statistics are
  then computed from the samples gathered before.
\<close>

definition tcp_client_iter ::
  "bool \<Rightarrow> i64 \<Rightarrow> tcp_env \<Rightarrow> nat \<Rightarrow> tcp_client_state \<Rightarrow> fault + tcp_client_state turn" where
  "tcp_client_iter time_sync clock_offset env i st =
     (let p0 = (packet st) \<lparr> seq_num := data_seq_num i, client_send := tcp_now_send env i,
                             server_recv := 0, server_send := 0 \<rparr>
      in and_then (load_bytes p0 (unat (packet_size p0))) (\<lambda>sent.
         and_then (tcp_receive p0 (inq st @ tcp_net env i sent)) (\<lambda>r.
           case r of
             Stop \<Rightarrow> Inr Stop
           | Go (p1, bytes_received, q1) \<Rightarrow>
               (let p2 = p1 \<lparr> client_recv := tcp_now_recv env i \<rparr>
                in and_then (validate_packet p2) (\<lambda>valid.
                   if \<not> valid then Inr (Go (st \<lparr> packet := p2, inq := q1 \<rparr>))
                   else Inr (Go (st \<lparr> packet := p2, inq := q1,
                                      samples := samples st @
                                        [measure_sample time_sync clock_offset p2] \<rparr>)))))))"

text \<open>
  Iteration \<open>i\<close> of the loop of \<^verbatim>\<open>run_udp_client\<close>. Each \<^verbatim>\<open>continue\<close> goes on with the next
  iteration without a sample. \<^verbatim>\<open>recvfrom\<close> is given \<^verbatim>\<open>packet->packet_size\<close> as the length of
  the buffer.
\<close>

definition udp_client_iter ::
  "bool \<Rightarrow> i64 \<Rightarrow> udp_env \<Rightarrow> nat \<Rightarrow> client_state \<Rightarrow> fault + client_state" where
  "udp_client_iter time_sync clock_offset env i st =
     (let p0 = (packet st) \<lparr> seq_num := data_seq_num i, client_send := udp_now_send env i,
                             server_recv := 0, server_send := 0 \<rparr>
      in and_then (load_bytes p0 (unat (packet_size p0))) (\<lambda>sent.
         case udp_net env i sent of
           SendFailed \<Rightarrow> Inr (st \<lparr> packet := p0 \<rparr>)
         | RecvFailed \<Rightarrow> Inr (st \<lparr> packet := p0 \<rparr>)
         | Received dgram \<Rightarrow>
             (let d = take (unat (packet_size p0)) dgram in
              if d = [] then Inr (st \<lparr> packet := p0 \<rparr>)
              else
                and_then (store_bytes p0 0 d) (\<lambda>p1.
                  let p2 = p1 \<lparr> client_recv := udp_now_recv env i \<rparr>
                  in and_then (validate_packet p2) (\<lambda>valid.
                     if \<not> valid \<or> seq_num p2 \<noteq> data_seq_num i
                     then Inr (st \<lparr> packet := p2 \<rparr>)
                     else Inr (st \<lparr> packet := p2,
                                    samples := samples st @
                                      [measure_sample time_sync clock_offset p2] \<rparr>))))))"

text \<open>The loop \<^verbatim>\<open>for (int i = 0; i < n; i++)\<close> of \<^verbatim>\<open>run_udp_client\<close>, with \<^verbatim>\<open>running\<close> left set.\<close>

definition udp_client_loop ::
  "bool \<Rightarrow> i64 \<Rightarrow> udp_env \<Rightarrow> nat \<Rightarrow> client_state \<Rightarrow> fault + client_state" where
  "udp_client_loop time_sync clock_offset env n st =
     fold (\<lambda>i r. and_then r (udp_client_iter time_sync clock_offset env i)) [0..<n] (Inr st)"

subsection \<open>Statistics\<close>

text \<open>The accumulation loops of lines 697 to 717 (and 938 to 958), on real numbers.\<close>

definition total_of :: "real list \<Rightarrow> real" where
  "total_of xs = fold (\<lambda>x total. total + x) xs 0"

definition min_of :: "real \<Rightarrow> real list \<Rightarrow> real" where
  "min_of x0 xs = fold (\<lambda>x m. if x < m then x else m) xs x0"

definition max_of :: "real \<Rightarrow> real list \<Rightarrow> real" where
  "max_of x0 xs = fold (\<lambda>x m. if m < x then x else m) xs x0"

definition avg_of :: "real list \<Rightarrow> real" where
  "avg_of xs = total_of xs / real (length xs)"

definition jitter_of :: "real list \<Rightarrow> real" where
  "jitter_of latencies =
     (let avg_latency = avg_of latencies;
          std_dev = fold (\<lambda>x acc. acc + (x - avg_latency) ^ 2) latencies 0
      in sqrt (std_dev / real (length latencies)))"

record stats =
  st_sent :: int
  st_received :: nat
  st_packet_loss :: real
  st_min_latency :: real
  st_max_latency :: real
  st_avg_latency :: real
  st_jitter :: real
  st_min_rtt :: real
  st_max_rtt :: real
  st_avg_rtt :: real

text \<open>
  The summary printed after the loop; \<open>None\<close> is the branch that prints
  \<^verbatim>\<open>No packets were successfully exchanged\<close>. The throughput line is not modelled.
\<close>

definition summarize :: "int \<Rightarrow> sample list \<Rightarrow> stats option" where
  "summarize num_packets smps =
     (case smps of
        [] \<Rightarrow> None
      | s0 # _ \<Rightarrow>
          (let latencies = map one_way_latency smps;
               rtts = map rtt smps;
               packets_received = length smps
           in Some \<lparr> st_sent = num_packets,
                     st_received = packets_received,
                     st_packet_loss =
                       100 * real_of_int (num_packets - int packets_received) / real_of_int num_packets,
                     st_min_latency = min_of (one_way_latency s0) latencies,
                     st_max_latency = max_of (one_way_latency s0) latencies,
                     st_avg_latency = avg_of latencies,
                     st_jitter = jitter_of latencies,
                     st_min_rtt = min_of (rtt s0) rtts,
                     st_max_rtt = max_of (rtt s0) rtts,
                     st_avg_rtt = avg_of rtts \<rparr>))"

text \<open>
  \<^verbatim>\<open>run_udp_client\<close> from the synchronisation on: the optional call of
  \<^verbatim>\<open>synchronize_clocks\<close>, \<^verbatim>\<open>create_packet\<close>, the loop and the summary. The result is the
  rows written and the summary printed.
\<close>

record config_t =
  num_packets :: int
  cfg_packet_size :: int
  time_sync :: bool

definition run_udp_client ::
  "nat \<Rightarrow> config_t \<Rightarrow> i64 list \<Rightarrow> sync_env \<Rightarrow> udp_env \<Rightarrow> fault + (sample list \<times> stats option)" where
  "run_udp_client avail config stack senv env =
     (let clock_offset = (if time_sync config then synchronize_clocks stack senv True else 0)
      in and_then (create_packet avail (cfg_packet_size config)) (\<lambda>pkt.
         and_then (udp_client_loop (time_sync config) (word_of_int clock_offset) env
                     (nat (num_packets config)) \<lparr> packet = pkt, samples = [] \<rparr>) (\<lambda>st.
         Inr (samples st, summarize (num_packets config) (samples st)))))"

subsection \<open>Reference notions and test surroundings\<close>

text \<open>
  The population standard deviation of a list about its mean, as statistics defines it:
  the square root of the mean squared deviation.
\<close>

definition mean :: "real list \<Rightarrow> real" where
  "mean xs = sum_list xs / real (length xs)"

definition population_std_dev :: "real list \<Rightarrow> real" where
  "population_std_dev xs = sqrt ((\<Sum>x\<leftarrow>xs. (x - mean xs) ^ 2) / real (length xs))"

text \<open>
  A faithful echo: the bytes sent come back with the two server timestamps filled in and
  nothing else changed.
\<close>

definition echo_of :: "byte list \<Rightarrow> u64 \<Rightarrow> u64 \<Rightarrow> byte list" where
  "echo_of sent t2 t3 = wire_of ((of_wire sent) \<lparr> server_recv := t2, server_send := t3 \<rparr>)"

text \<open>
  The noiseless link for the synchronisation: the server clock shows the client clock plus
  \<open>off\<close>, every packet travels for \<open>delay\<close> microseconds in each direction, the server answers
  at once, and round \<open>i\<close> starts when the client clock shows \<open>start i\<close>.
\<close>

definition ideal_link :: "u64 \<Rightarrow> u64 \<Rightarrow> (nat \<Rightarrow> u64) \<Rightarrow> sync_env" where
  "ideal_link delay off start =
     \<lparr> clock_t1 = start,
       clock_t4 = (\<lambda>i. start i + delay + delay),
       exchange = (\<lambda>i sent. Received (echo_of sent (start i + delay + off) (start i + delay + off))) \<rparr>"


text \<open>A network on which no round of the synchronisation gets an answer.\<close>

definition dead_link :: "(nat \<Rightarrow> u64) \<Rightarrow> sync_env" where
  "dead_link start =
     \<lparr> clock_t1 = start, clock_t4 = start, exchange = (\<lambda>i sent. RecvFailed) \<rparr>"

text \<open>
  The datagram channel that loses every third packet (the third, the sixth, ...) and echoes
  every other one faithfully; the client then waits for its timeout on the lost ones.
\<close>

definition lossy_echo :: "(nat \<Rightarrow> u64) \<Rightarrow> (nat \<Rightarrow> u64) \<Rightarrow> (nat \<Rightarrow> u64) \<Rightarrow> udp_env" where
  "lossy_echo t_send t_server t_recv =
     \<lparr> udp_now_send = t_send,
       udp_now_recv = t_recv,
       udp_net = (\<lambda>i sent. if (i + 1) mod 3 = 0 then RecvFailed
                            else Received (echo_of sent (t_server i) (t_server i))) \<rparr>"

text \<open>
  The measurements of a sample \<open>s\<close> as the specification words them, for the packet \<open>p\<close>
  they are taken from. The timestamps are read as the numbers they hold and the clock offset
  \<open>offset\<close> as the signed number it is, so that a difference of an earlier from a later time
  is negative: \<open>server_processing = server_send - server_recv\<close>,
  \<open>rtt = client_recv - client_send\<close>, and the one-way latency is
  \<open>(server_recv - offset) - client_send\<close> with synchronisation and
  \<open>(rtt - server_processing) / 2\<close> without.
\<close>

definition sample_formula :: "bool \<Rightarrow> int \<Rightarrow> packet_t \<Rightarrow> sample \<Rightarrow> bool" where
  "sample_formula sync offset p s \<longleftrightarrow>
     server_processing s = real_of_int (uint (server_send p) - uint (server_recv p)) \<and>
     rtt s = real_of_int (uint (client_recv p) - uint (client_send p)) \<and>
     one_way_latency s =
       (if sync then real_of_int ((uint (server_recv p) - offset) - uint (client_send p))
        else (rtt s - server_processing s) / 2)"

text \<open>
  What stays true of the client's buffer from \<open>create_packet\<close> on while the echoes are
  faithful: it is accepted by \<open>validate_packet\<close>, and its declared size is the size of the
  allocation.
\<close>

definition client_inv :: "packet_t \<Rightarrow> bool" where
  "client_inv p \<longleftrightarrow> validate_packet p = Inr True \<and> unat (packet_size p) = length (wire_of p)"

text \<open>
  A stream on which every reply is a faithful echo that arrives in two pieces: the first
  \<open>sizeof(packet_t)\<close> bytes, then the rest. The server stamps iteration \<open>i\<close> at \<open>t_server i\<close>.
\<close>

definition two_piece_echo :: "(nat \<Rightarrow> u64) \<Rightarrow> (nat \<Rightarrow> u64) \<Rightarrow> (nat \<Rightarrow> u64) \<Rightarrow> tcp_env" where
  "two_piece_echo t_send t_server t_recv =
     \<lparr> tcp_now_send = t_send,
       tcp_now_recv = t_recv,
       tcp_net = (\<lambda>i sent. [Seg (take sizeof_packet_t (echo_of sent (t_server i) (t_server i))),
                             Seg (drop sizeof_packet_t (echo_of sent (t_server i) (t_server i)))]) \<rparr>"

text \<open>
  The packet that \<open>create_packet\<close> returns for the size 64: 16 bytes of pattern, then the 4
  bytes that the fill loop does not reach.
\<close>

definition probe64 :: packet_t where
  "probe64 =
     \<lparr> seq_num = 0, client_send = 0, server_recv = 0, server_send = 0, client_recv = 0,
       packet_size = 64,
       payload = [0, 1, 2, 3, 4, 5, 6, 7, 8, 9, 10, 11, 12, 13, 14, 15, 0, 0, 0, 0] \<rparr>"

text \<open>
  The first data packet of a client with the 64-byte buffer, sent at 1000, and its faithful
  echo, stamped by the server at 1040.
\<close>

definition probe_sent :: packet_t where
  "probe_sent = probe64 \<lparr> seq_num := 1, client_send := 1000 \<rparr>"

definition probe_echo :: "byte list" where
  "probe_echo = echo_of (wire_of probe_sent) 1040 1040"


section \<open>Properties\<close>

subsection \<open>Bytes and fields\<close>

lemma length_le_bytes: "length (le_bytes n w) = n"
  by (simp add: le_bytes_def)

lemma bit_le_word:
  "bit (le_word bs :: 'a::len word) n \<longleftrightarrow>
     n < LENGTH('a) \<and> n div 8 < length bs \<and> bit (bs ! (n div 8)) (n mod 8)"
proof (induction bs arbitrary: n)
  case Nil
  then show ?case by simp
next
  case (Cons b bs)
  show ?case
  proof (cases "n < 8")
    case True
    then show ?thesis by (simp add: bit_simps Cons)
  next
    case False
    then have "n div 8 = Suc ((n - 8) div 8)" "n mod 8 = (n - 8) mod 8"
      by (simp_all add: le_div_geq le_mod_geq)
    with False show ?thesis
      by (auto simp add: bit_simps Cons dest: bit_imp_le_length)
  qed
qed

lemma le_word_le_bytes:
  "LENGTH('a) \<le> 8 * n \<Longrightarrow> le_word (le_bytes n (w :: 'a::len word)) = w"
  by (rule bit_word_eqI)
     (auto simp add: bit_le_word le_bytes_def bit_simps less_mult_imp_div_less)

lemma length_wire_of: "length (wire_of p) = payload_offset + length (payload p)"
  by (simp add: wire_of_def length_le_bytes payload_offset_def)

lemma of_wire_wire_of: "of_wire (wire_of p) = p"
  by (simp add: of_wire_def wire_of_def length_le_bytes le_word_le_bytes payload_offset_def)


subsection \<open>create_packet and validate_packet\<close>

lemma length_fill_pattern: "length (fill_pattern n pl) = length pl"
  unfolding fill_pattern_def by (induction n) simp_all

lemma nth_fill_pattern:
  "i < length pl \<Longrightarrow> fill_pattern n pl ! i = (if i < n then of_nat (i mod 256) else pl ! i)"
  unfolding fill_pattern_def
proof (induction n)
  case 0
  then show ?case by simp
next
  case (Suc n)
  have len: "length (fold (\<lambda>i pl. pl[i := of_nat (i mod 256)]) [0..<n] pl) = length pl"
    using length_fill_pattern [of n pl] by (simp add: fill_pattern_def)
  show ?case using Suc len by (auto simp add: nth_list_update less_Suc_eq)
qed

lemma unat_byte_pattern: "unat (of_nat (i mod 256) :: byte) = i mod 256"
  by (simp add: unat_of_nat take_bit_eq_mod)

lemma validate_loop_True:
  "\<lbrakk> n \<le> length pl; n \<le> INT_MAX; \<forall>j. i \<le> j \<and> j < n \<longrightarrow> unat (pl ! j) = j mod 256 \<rbrakk>
   \<Longrightarrow> validate_loop pl n i = Inr True"
proof (induction pl n i rule: validate_loop.induct)
  case (1 pl n i)
  show ?case
  proof (cases "i < n")
    case True
    with "1.prems" have a: "\<not> length pl \<le> i" "unat (pl ! i) = i mod 256" "i \<noteq> INT_MAX"
      by auto
    have "validate_loop pl n (Suc i) = Inr True"
      using "1.IH" True a "1.prems" by auto
    with True a show ?thesis by (subst validate_loop.simps) simp
  next
    case False
    then show ?thesis by (subst validate_loop.simps) simp
  qed
qed

lemma validate_loop_False:
  "\<lbrakk> n \<le> length pl; n \<le> INT_MAX; i \<le> j; j < n; unat (pl ! j) \<noteq> j mod 256 \<rbrakk>
   \<Longrightarrow> validate_loop pl n i = Inr False"
proof (induction pl n i rule: validate_loop.induct)
  case (1 pl n i)
  from "1.prems" have b: "i < n" "\<not> length pl \<le> i" "i \<noteq> INT_MAX"
    by auto
  show ?case
  proof (cases "unat (pl ! i) \<noteq> i mod 256")
    case True
    with b show ?thesis by (subst validate_loop.simps) simp
  next
    case False
    with "1.prems" have "i \<noteq> j" by auto
    with "1.prems" have "Suc i \<le> j" by simp
    then have "validate_loop pl n (Suc i) = Inr False"
      using "1.IH" b False "1.prems" by auto
    with b False show ?thesis by (subst validate_loop.simps) simp
  qed
qed

text \<open>What \<open>create_packet\<close> returns for a size that needs no clamping and fits the heap.\<close>

lemma create_packet_ok:
  assumes "int sizeof_packet_t \<le> sz" "sz \<le> int INT_MAX" "nat sz \<le> avail"
  shows "create_packet avail sz =
     Inr ((zero_packet (nat sz - payload_offset))
            \<lparr> packet_size := word_of_int sz,
              payload := fill_pattern (nat sz - sizeof_packet_t)
                           (replicate (nat sz - payload_offset) 0) \<rparr>)"
proof -
  have "sz mod 2 ^ 64 = sz"
    using assms by (simp add: INT_MAX_def sizeof_packet_t_def)
  then have t: "to_size_t sz = nat sz"
    by (simp add: to_size_t_def)
  have n: "\<not> nat sz < sizeof_packet_t" "\<not> INT_MAX < nat sz - sizeof_packet_t" "\<not> avail < nat sz"
    using assms by auto
  show ?thesis using n t
    by (simp add: create_packet_def Let_def zero_packet_def)
qed

text \<open>
  The facts about a created packet that the claims on \<open>create_packet\<close> and \<open>validate_packet\<close>
  rest on: the declared size, the pattern, acceptance, and rejection after a change of one
  byte of the pattern.
\<close>

lemma created_packet_valid:
  assumes "int sizeof_packet_t \<le> sz" "sz \<le> int INT_MAX" "nat sz \<le> avail"
  shows "\<exists>p. create_packet avail sz = Inr p \<and> validate_packet p = Inr True \<and>
           unat (packet_size p) = nat sz \<and>
           length (payload p) = nat sz - payload_offset \<and>
           (\<forall>i < nat sz - sizeof_packet_t. unat (payload p ! i) = i mod 256) \<and>
           (\<forall>i < nat sz - sizeof_packet_t. \<forall>b. b \<noteq> payload p ! i \<longrightarrow>
               validate_packet (p \<lparr> payload := (payload p)[i := b] \<rparr>) = Inr False)"
proof -
  define n where "n = nat sz - sizeof_packet_t"
  define pl where "pl = fill_pattern n (replicate (nat sz - payload_offset) 0)"
  define p where
    "p = (zero_packet (nat sz - payload_offset)) \<lparr> packet_size := word_of_int sz, payload := pl \<rparr>"
  have cp: "create_packet avail sz = Inr p"
    using create_packet_ok [OF assms] by (simp add: p_def pl_def n_def)
  have len: "length pl = nat sz - payload_offset"
    by (simp add: pl_def length_fill_pattern)
  have nle: "n \<le> length pl" "n \<le> INT_MAX"
    using assms by (simp_all add: len n_def payload_offset_def sizeof_packet_t_def INT_MAX_def)
  have pat: "unat (pl ! i) = i mod 256" if "i < n" for i
    using that nle by (simp add: pl_def nth_fill_pattern unat_byte_pattern length_fill_pattern)
  have "uint (word_of_int sz :: u32) = sz"
    using assms by (simp add: uint_word_of_int INT_MAX_def sizeof_packet_t_def)
  then have ps: "unat (packet_size p) = nat sz"
    by (simp add: p_def unat_eq_nat_uint)
  have hs: "\<not> unat (packet_size p) < sizeof_packet_t"
    using assms ps by simp
  have v: "validate_packet p = Inr True"
    using hs ps nle pat by (simp add: validate_packet_def p_def validate_loop_True flip: n_def)
  have flip: "validate_packet (p \<lparr> payload := (payload p)[i := b] \<rparr>) = Inr False"
    if "i < n" "b \<noteq> payload p ! i" for i b
  proof -
    have "unat b \<noteq> unat (pl ! i)"
      using that by (simp add: p_def word_unat_eq_iff)
    then have "unat (pl[i := b] ! i) \<noteq> i mod 256"
      using that nle pat by simp
    then have "validate_loop (pl[i := b]) n 0 = Inr False"
      using nle that by (intro validate_loop_False [where j = i]) simp_all
    then show ?thesis
      using hs ps by (simp add: validate_packet_def p_def flip: n_def)
  qed
  show ?thesis
    using cp v ps pat flip len unfolding n_def [symmetric]
    by (intro exI [of _ p]) (simp add: p_def)
qed



lemma created_packet_tail:
  assumes "int sizeof_packet_t \<le> sz" "sz \<le> int INT_MAX" "nat sz \<le> avail"
    and "create_packet avail sz = Inr p"
  shows "seq_num p = 0 \<and> client_send p = 0 \<and> server_recv p = 0 \<and> server_send p = 0 \<and>
         client_recv p = 0 \<and>
         (\<forall>i. nat sz - sizeof_packet_t \<le> i \<and> i < nat sz - payload_offset \<longrightarrow> payload p ! i = 0)"
  using assms(4) unfolding create_packet_ok [OF assms(1-3)]
  by (auto simp add: zero_packet_def nth_fill_pattern)

text \<open>A size from 0 up to the header size is raised to the header size.\<close>

lemma create_packet_small:
  assumes "0 \<le> sz" "sz < int sizeof_packet_t"
  shows "create_packet avail sz = create_packet avail (int sizeof_packet_t)"
proof -
  have "sz mod 2 ^ 64 = sz"
    using assms by (simp add: sizeof_packet_t_def)
  then have "to_size_t sz = nat sz"
    by (simp add: to_size_t_def)
  then have "to_size_t sz < sizeof_packet_t"
    using assms by simp
  moreover have "\<not> to_size_t (int sizeof_packet_t) < sizeof_packet_t"
    by (simp add: to_size_t_def sizeof_packet_t_def)
  ultimately show ?thesis
    by (simp add: create_packet_def)
qed







text \<open>
  C9, as the code has it. For every requested size from 0 up to \<^verbatim>\<open>INT_MAX\<close>, below 64 and
  above 8192 included, and a heap that can supply the bytes, \<open>create_packet\<close> returns a
  packet with \<open>packet_size = max(size, sizeof(packet_t))\<close>, every header field zero, and the
  pattern \<open>i mod 256\<close> on the \<open>packet_size - sizeof(packet_t)\<close> payload bytes that the two
  loops index; \<open>validate_packet\<close> accepts it. The function itself does not enforce the bound
  of 64 to 8192; its callers pass \<^verbatim>\<open>MAX_PACKET_SIZE\<close> or the configured size, which
  \<^verbatim>\<open>main\<close> keeps between 64 and 8192.
\<close>

theorem create_packet_from_zero_up:
  assumes "0 \<le> sz" "sz \<le> int INT_MAX" "nat (max sz (int sizeof_packet_t)) \<le> avail"
  shows "\<exists>p. create_packet avail sz = Inr p \<and>
           unat (packet_size p) = nat (max sz (int sizeof_packet_t)) \<and>
           seq_num p = 0 \<and> client_send p = 0 \<and> server_recv p = 0 \<and> server_send p = 0 \<and>
           client_recv p = 0 \<and>
           length (payload p) = unat (packet_size p) - payload_offset \<and>
           (\<forall>i < unat (packet_size p) - sizeof_packet_t. unat (payload p ! i) = i mod 256) \<and>
           validate_packet p = Inr True"
proof -
  define m where "m = max sz (int sizeof_packet_t)"
  have rng: "int sizeof_packet_t \<le> m" "m \<le> int INT_MAX"
    using assms by (simp_all add: m_def sizeof_packet_t_def INT_MAX_def)
  have av: "nat m \<le> avail"
    using assms by (simp add: m_def)
  have same: "create_packet avail sz = create_packet avail m"
  proof (cases "sz < int sizeof_packet_t")
    case True
    then have "m = int sizeof_packet_t" by (simp add: m_def)
    with True assms show ?thesis by (simp add: create_packet_small)
  next
    case False
    then have "m = sz" by (simp add: m_def)
    then show ?thesis by simp
  qed
  from created_packet_valid [OF rng av]
  obtain p where cp: "create_packet avail m = Inr p"
    and v: "validate_packet p = Inr True"
    and ps: "unat (packet_size p) = nat m"
    and len: "length (payload p) = nat m - payload_offset"
    and pat: "\<forall>i < nat m - sizeof_packet_t. unat (payload p ! i) = i mod 256"
    by blast
  have z: "seq_num p = 0 \<and> client_send p = 0 \<and> server_recv p = 0 \<and> server_send p = 0 \<and>
         client_recv p = 0"
    using created_packet_tail [OF rng av cp] by simp
  show ?thesis
    using cp v ps len pat z unfolding same m_def [symmetric]
    by (intro exI [of _ p]) simp
qed

theorem create_packet_from_zero_up_witness:
  "(0 :: int) \<le> 10 \<and> 10 \<le> int INT_MAX \<and> nat (max 10 (int sizeof_packet_t)) \<le> (48 :: nat) \<and>
   (\<exists>p. create_packet 48 10 = Inr p \<and> unat (packet_size p) = 48 \<and> seq_num p = 0 \<and>
      length (payload p) = 4 \<and> validate_packet p = Inr True) \<and>
   (0 :: int) \<le> 9000 \<and> 9000 \<le> int INT_MAX \<and> nat (max 9000 (int sizeof_packet_t)) \<le> (9000 :: nat) \<and>
   (\<exists>p. create_packet 9000 9000 = Inr p \<and> unat (packet_size p) = 9000 \<and>
      (\<forall>i < 8952. unat (payload p ! i) = i mod 256) \<and> validate_packet p = Inr True)"
proof -
  have h: "(0 :: int) \<le> 10" "10 \<le> int INT_MAX" "nat (max 10 (int sizeof_packet_t)) \<le> (48 :: nat)"
    by (simp_all add: INT_MAX_def sizeof_packet_t_def)
  have k: "(0 :: int) \<le> 9000" "9000 \<le> int INT_MAX" "nat (max 9000 (int sizeof_packet_t)) \<le> (9000 :: nat)"
    by (simp_all add: INT_MAX_def sizeof_packet_t_def)
  show ?thesis
    using h k create_packet_from_zero_up [OF h, unfolded sizeof_packet_t_def payload_offset_def]
      create_packet_from_zero_up [OF k, unfolded sizeof_packet_t_def payload_offset_def]
    by auto
qed

text \<open>
  The claim as stated fails: \<open>create_packet\<close> is not total over the integers. For the size
  \<open>- 1\<close> the comparison with \<^verbatim>\<open>sizeof(packet_t)\<close> is unsigned, so the size is not raised to
  the header size, \<^verbatim>\<open>malloc\<close> is asked for \<open>2 ^ 64 - 1\<close> bytes and fails (here with as much
  as \<open>2 ^ 63 - 1\<close> bytes to give), and the process exits without a packet. The same exit is
  taken for the size 64 when the heap has 63 bytes left.
\<close>

theorem create_packet_not_total:
  "create_packet (2 ^ 63 - 1) (- 1) = Inl AllocFailed \<and>
   create_packet 63 64 = Inl AllocFailed"
  by (simp add: create_packet_def to_size_t_def sizeof_packet_t_def)


subsection \<open>Sequence numbers\<close>

lemma unat_ucast_32_64: "unat (ucast w :: u64) = unat w" for w :: u32
proof -
  have "unat w < 2 ^ 32" using unsigned_less [of w] by simp
  then have "unat w < 2 ^ 64" by simp
  then show ?thesis by (simp add: unsigned_ucast_eq take_bit_nat_eq_self)
qed

lemma unat_sync_seq_num: "i < 2 ^ 32 \<Longrightarrow> unat (sync_seq_num i) = 2 ^ 32 - 1 - i"
proof -
  assume a: "i < 2 ^ 32"
  have e: "(0xFFFFFFFF :: u32) - of_nat i = of_nat (4294967295 - i)"
    using a by (simp add: of_nat_diff)
  have "unat (of_nat (4294967295 - i) :: u32) = 4294967295 - i"
    by (simp add: unat_of_nat take_bit_nat_eq_self)
  then have "unat (sync_seq_num i) = 4294967295 - i"
    unfolding sync_seq_num_def e unat_ucast_32_64 .
  then show ?thesis by simp
qed

lemma is_sync_seq_iff: "is_sync_seq s \<longleftrightarrow> 2 ^ 32 - 21 \<le> unat s"
  by (simp add: is_sync_seq_def word_le_nat_alt)

lemma unat_data_seq_num: "i < INT_MAX \<Longrightarrow> unat (data_seq_num i) = i + 1"
  by (simp add: data_seq_num_def INT_MAX_def unat_of_nat take_bit_nat_eq_self del: of_nat_Suc of_nat_add)

text \<open>
  C2, as the code has it. The synchronisation packet of round \<open>i\<close> (of 10) carries
  \<open>seq_num = 2 ^ 32 - 1 - i\<close>: the constant \<^verbatim>\<open>0xFFFFFFFF\<close> is the largest 32-bit value, not
  the largest 64-bit one. The stream server takes a packet for a synchronisation packet
  exactly when its \<open>seq_num\<close> is at least \<open>2 ^ 32 - 21\<close>, which every synchronisation packet
  satisfies. A data packet carries \<open>i + 1\<close> for an \<^verbatim>\<open>int\<close> counter \<open>i\<close>, so at most
  \<open>2 ^ 31 - 1\<close>, and is never taken for one.
\<close>

theorem sync_seq_num_range:
  "(\<forall>i < SYNC_ROUNDS. \<forall>t1.
       unat (seq_num (sync_packet_init i t1)) = 2 ^ 32 - 1 - i \<and>
       is_sync_seq (seq_num (sync_packet_init i t1))) \<and>
   (\<forall>i < INT_MAX. unat (data_seq_num i) = i + 1 \<and> \<not> is_sync_seq (data_seq_num i)) \<and>
   (\<forall>s. is_sync_seq s \<longleftrightarrow> 2 ^ 32 - 21 \<le> unat s)"
proof (intro conjI allI impI)
  fix i t1 assume "i < SYNC_ROUNDS"
  then have i: "i < 2 ^ 32" "i < 10" by (simp_all add: SYNC_ROUNDS_def)
  show "unat (seq_num (sync_packet_init i t1)) = 2 ^ 32 - 1 - i"
    using i by (simp add: sync_packet_init_def unat_sync_seq_num)
  show "is_sync_seq (seq_num (sync_packet_init i t1))"
    using i by (simp add: sync_packet_init_def unat_sync_seq_num is_sync_seq_iff)
next
  fix i assume i: "i < INT_MAX"
  show "unat (data_seq_num i) = i + 1" using i by (rule unat_data_seq_num)
  show "\<not> is_sync_seq (data_seq_num i)"
    using i unat_data_seq_num [OF i] by (simp add: is_sync_seq_iff INT_MAX_def)
next
  fix s show "is_sync_seq s \<longleftrightarrow> 2 ^ 32 - 21 \<le> unat s" by (rule is_sync_seq_iff)
qed

theorem sync_seq_num_range_witness:
  "unat (seq_num (sync_packet_init 3 0)) = 4294967292 \<and> is_sync_seq (seq_num (sync_packet_init 3 0)) \<and>
   unat (data_seq_num 99) = 100 \<and> \<not> is_sync_seq (data_seq_num 99) \<and>
   is_sync_seq 4294967275 \<and> \<not> is_sync_seq 4294967274"
proof -
  have a: "(3::nat) < SYNC_ROUNDS" by (simp add: SYNC_ROUNDS_def)
  have b: "(99::nat) < INT_MAX" by (simp add: INT_MAX_def)
  from sync_seq_num_range a b show ?thesis by simp
qed

text \<open>
  The claim as stated fails: the synchronisation packet of round 0 carries \<open>2 ^ 32 - 1\<close>,
  far below \<open>2 ^ 64 - 21\<close>, and the server takes \<open>2 ^ 32\<close>, which is outside the top 20
  values of the 64-bit range, for a synchronisation packet.
\<close>

theorem sync_seq_num_not_top_of_64_bits:
  "unat (seq_num (sync_packet_init 0 0)) = 4294967295 \<and>
   \<not> 2 ^ 64 - 21 \<le> unat (seq_num (sync_packet_init 0 0)) \<and>
   is_sync_seq 4294967296 \<and> \<not> 2 ^ 64 - 21 \<le> unat (4294967296 :: u64)"
  by (simp add: sync_packet_init_def sync_seq_num_def is_sync_seq_def)


subsection \<open>Statistics\<close>

lemma fold_add: "fold (\<lambda>x acc. acc + f x) xs a = a + sum_list (map f xs)" for a :: real
  by (induction xs arbitrary: a) simp_all

lemma avg_of_mean: "avg_of xs = mean xs"
  using fold_add [of "\<lambda>x. x" xs 0] by (simp add: avg_of_def total_of_def mean_def)

lemma jitter_of_psd: "jitter_of xs = population_std_dev xs"
  using fold_add [of "\<lambda>x. (x - mean xs)^2" xs 0]
  by (simp add: jitter_of_def population_std_dev_def avg_of_mean)

lemma avg_of_example: "avg_of [10, 20, 30] = 20" by (simp add: avg_of_def total_of_def)
lemma jitter_of_example: "jitter_of [10, 20, 30] = sqrt (200 / 3)"
  by (simp add: jitter_of_def avg_of_def total_of_def)
lemma sqrt_200_3_bounds: "8.1645 < sqrt (200 / 3 :: real)" "sqrt (200 / 3 :: real) < 8.1655"
  by (rule real_less_rsqrt, simp add: power2_eq_square) (rule real_less_lsqrt, simp_all add: power2_eq_square)


subsection \<open>synchronize_clocks\<close>

lemma sync_round_dead: "sync_round (dead_link s) i st = st"
  by (simp add: sync_round_def dead_link_def)

lemma fold_id: "(\<And>x. f x = id) \<Longrightarrow> fold f xs = id"
  by (induction xs) simp_all

lemma synchronize_clocks_dead_link: "synchronize_clocks stack (dead_link s) True = sint (stack ! 0)"
proof -
  have "fold (sync_round (dead_link s)) [0..<SYNC_ROUNDS] = id"
    by (rule fold_id) (simp add: fun_eq_iff sync_round_dead)
  then show ?thesis by (simp add: synchronize_clocks_def)
qed

text \<open>
  C3 on the code. With every round failing, no slot of \<^verbatim>\<open>offsets\<close> is ever written and
  \<^verbatim>\<open>best_round\<close> stays 0, so the function returns what the uninitialised slot 0 held on
  entry: 7 here, not 0.
\<close>

theorem synchronize_clocks_all_rounds_fail:
  "synchronize_clocks (7 # replicate 9 0) (dead_link (\<lambda>i. 0)) True = 7"
  by (simp add: synchronize_clocks_dead_link)

lemma copy_in_all: "length d = length m \<Longrightarrow> copy_in m 0 d = d"
  by (simp add: copy_in_def)

lemma length_echo_of: "length (echo_of (wire_of p) a b) = length (wire_of p)"
  by (simp add: echo_of_def of_wire_wire_of length_wire_of)

lemma echo_of_wire_of: "echo_of (wire_of p) a b = wire_of (p \<lparr> server_recv := a, server_send := b \<rparr>)"
  by (simp add: echo_of_def of_wire_wire_of)

lemma length_wire_sync: "length (wire_of (sync_packet_init i t)) = sizeof_packet_t"
  by (simp add: length_wire_of sync_packet_init_def zero_packet_def sizeof_packet_t_def payload_offset_def)

lemma double_sless_max: "(x + x :: i64) <s INT64_MAX"
proof -
  have "even (x + x)" by simp
  moreover have "odd INT64_MAX" by (simp add: INT64_MAX_def)
  ultimately have ne: "x + x \<noteq> INT64_MAX" by metis
  have "sint (x + x) < 2 ^ 63" using sint_lt [of "x + x"] by simp
  moreover have "sint INT64_MAX = 2 ^ 63 - 1" by (simp add: INT64_MAX_def)
  moreover have "sint (x + x) \<noteq> sint INT64_MAX"
    using ne signed_word_eqI [of "x + x" INT64_MAX] by blast
  ultimately show ?thesis by (simp add: word_sless_alt)
qed

lemma sint_nonneg_unat: "0 \<le> sint (x :: i64) \<Longrightarrow> unat x < 2 ^ 63"
proof -
  assume "0 \<le> sint x"
  then have nb: "\<not> bit x 63" using bit_last_iff [of x] by simp
  have "take_bit 63 x = x"
  proof (rule bit_word_eqI)
    fix n assume "n < LENGTH(64)"
    then have "n < 63 \<or> n = 63" by auto
    then show "bit (take_bit 63 x) n \<longleftrightarrow> bit x n" using nb by (auto simp add: bit_simps)
  qed
  then have "unat x = take_bit 63 (unat x)" by (metis unsigned_take_bit_eq)
  then show ?thesis using take_bit_nat_less_exp [of 63 "unat x"] by simp
qed

lemma half_double: "0 \<le> sint (x :: i64) \<Longrightarrow> (x + x) div 2 = x"
proof -
  assume "0 \<le> sint x"
  then have u: "unat x < 2 ^ 63" by (rule sint_nonneg_unat)
  then have "unat x + unat x < 2 ^ LENGTH(64)" by simp
  then have a: "unat (x + x) = unat x + unat x" by (rule unat_add_lem [THEN iffD1])
  have "unat ((x + x) div 2) = unat (x + x) div unat (2 :: i64)" by (rule unat_div)
  also have "\<dots> = unat x" unfolding a by simp
  finally show ?thesis by (simp only: word_unat_eq_iff)
qed

lemma sync_round_ideal:
  "sync_round (ideal_link d off s) i st =
     (let st' = st \<lparr> offsets := (offsets st)[i := (off + off) div 2] \<rparr>
      in if d + d <s min_rtt st then st' \<lparr> min_rtt := d + d, best_round := i \<rparr> else st')"
proof -
  let ?sp = "sync_packet_init i (s i)"
  let ?t = "s i + d + off"
  have ne: "echo_of (wire_of ?sp) ?t ?t \<noteq> []"
    using length_echo_of [of ?sp ?t ?t] length_wire_sync [of i "s i"]
    by (auto simp add: sizeof_packet_t_def)
  have tk: "take sizeof_packet_t (echo_of (wire_of ?sp) ?t ?t) = echo_of (wire_of ?sp) ?t ?t"
    by (simp add: length_echo_of length_wire_sync)
  have rd: "of_wire (copy_in (wire_of ?sp) 0 (echo_of (wire_of ?sp) ?t ?t))
            = ?sp \<lparr> server_recv := ?t, server_send := ?t \<rparr>"
    by (simp add: copy_in_all length_echo_of) (simp add: echo_of_wire_of of_wire_wire_of)
  have o: "(?t - s i) + (?t - (s i + d + d)) = off + off" by simp
  have r: "(s i + d + d - s i) - (?t - ?t) = d + d" by simp
  show ?thesis
    unfolding sync_round_def ideal_link_def
    apply (simp add: Let_def ne tk rd o r del: )
    done
qed


lemma sync_rounds_later:
  assumes "min_rtt st = d + d" "0 < a" "a \<le> b"
  shows "fold (sync_round (ideal_link d off s)) [a..<b] st =
           st \<lparr> offsets := fold (\<lambda>i xs. xs[i := (off + off) div 2]) [a..<b] (offsets st) \<rparr>"
  using assms(3,1)
proof (induction b rule: dec_induct)
  case base
  then show ?case by simp
next
  case (step n)
  then show ?case by (simp add: sync_round_ideal word_sless_alt)
qed

lemma nth_fold_update_later:
  "k < a \<Longrightarrow> fold (\<lambda>i xs. xs[i := v]) [a..<b] xs ! k = xs ! k"
  by (induction b) simp_all

lemma synchronize_clocks_ideal:
  assumes "0 < length stack"
  shows "synchronize_clocks stack (ideal_link d off s) True = sint ((off + off) div 2)"
proof -
  let ?v = "(off + off) div 2"
  let ?st0 = "\<lparr> offsets = stack, min_rtt = INT64_MAX, best_round = 0 \<rparr>"
  let ?st1 = "\<lparr> offsets = stack[0 := ?v], min_rtt = d + d, best_round = 0 \<rparr>"
  have r0: "sync_round (ideal_link d off s) 0 ?st0 = ?st1"
    using double_sless_max [of d, unfolded mult_2 [symmetric]]
    by (simp add: sync_round_ideal Let_def)
  have "[0..<SYNC_ROUNDS] = 0 # [1..<SYNC_ROUNDS]"
    by (simp add: SYNC_ROUNDS_def upt_rec)
  then have "fold (sync_round (ideal_link d off s)) [0..<SYNC_ROUNDS] ?st0
             = fold (sync_round (ideal_link d off s)) [1..<SYNC_ROUNDS] ?st1"
    using r0 by simp
  also have "\<dots> = ?st1 \<lparr> offsets := fold (\<lambda>i xs. xs[i := ?v]) [1..<SYNC_ROUNDS] (offsets ?st1) \<rparr>"
    by (rule sync_rounds_later) (simp_all add: SYNC_ROUNDS_def)
  finally show ?thesis
    using assms by (simp add: synchronize_clocks_def nth_fold_update_later)
qed

text \<open>On the noiseless link the function returns the true offset whenever that is not negative.\<close>

lemma synchronize_clocks_ideal_nonneg:
  "0 < length stack \<Longrightarrow> 0 \<le> sint off \<Longrightarrow>
   synchronize_clocks stack (ideal_link d off s) True = sint off"
  by (simp only: synchronize_clocks_ideal half_double)

text \<open>
  C1 on the code. On the noiseless link with delay 50 and the server clock 100 microseconds
  behind the client clock (offset \<open>- 100\<close>), the function returns \<open>2 ^ 63 - 100\<close>: the sum
  \<^verbatim>\<open>(t2 - t1) + (t3 - t4)\<close> is a \<^verbatim>\<open>uint64_t\<close>, so \<^verbatim>\<open>/ 2\<close> is an unsigned division.
\<close>

theorem synchronize_clocks_negative_offset:
  "sint (- 100 :: i64) = - 100 \<and>
   synchronize_clocks (replicate 10 0) (ideal_link 50 (- 100) (\<lambda>i. 1000000 + 50000 * of_nat i)) True
     = 9223372036854775708"
  by (simp add: synchronize_clocks_ideal)


subsection \<open>The datagram server\<close>

lemma copy_in_0: "length d \<le> length m \<Longrightarrow> copy_in m 0 d = d @ drop (length d) m"
  by (simp add: copy_in_def)

lemma of_wire_append_fields:
  assumes "payload_offset \<le> length d"
  shows "seq_num (of_wire (d @ r)) = seq_num (of_wire d)"
    "client_send (of_wire (d @ r)) = client_send (of_wire d)"
    "server_recv (of_wire (d @ r)) = server_recv (of_wire d)"
    "server_send (of_wire (d @ r)) = server_send (of_wire d)"
    "client_recv (of_wire (d @ r)) = client_recv (of_wire d)"
    "packet_size (of_wire (d @ r)) = packet_size (of_wire d)"
    "payload (of_wire (d @ r)) = payload (of_wire d) @ r"
  using assms by (simp_all add: of_wire_def payload_offset_def)

lemma length_payload_of_wire: "length (payload (of_wire bs)) = length bs - payload_offset"
  by (simp add: of_wire_def)

lemma length_wire_stamped [simp]:
  "length (wire_of (p \<lparr> server_recv := a \<rparr>)) = length (wire_of p)"
  "length (wire_of (p \<lparr> server_send := a \<rparr>)) = length (wire_of p)"
  "length (wire_of (p \<lparr> client_recv := a \<rparr>)) = length (wire_of p)"
  "length (wire_of (p \<lparr> client_send := a \<rparr>)) = length (wire_of p)"
  "length (wire_of (p \<lparr> seq_num := a \<rparr>)) = length (wire_of p)"
  by (simp_all add: length_wire_of)

text \<open>
  C10, as the code has it. For every inbound datagram that carries the header fields (at
  least 44 bytes) and declares at most \<open>MAX_PACKET_SIZE\<close> bytes, the size of the server's
  buffer, one turn of the server loop stamps \<open>server_recv\<close> and then \<open>server_send\<close> and hands
  \<^verbatim>\<open>sendto\<close> exactly as many bytes as the \<open>packet_size\<close> field of the datagram declares,
  whatever the number of bytes received: the datagram's bytes with the two stamps, followed
  by what the buffer held before if the declared size is the larger. Nothing in the turn
  looks at the payload or at \<open>seq_num\<close>, so a synchronisation packet and a corrupted packet
  are treated alike.
\<close>

theorem udp_server_echoes_declared_size:
  assumes hdr: "payload_offset \<le> length dgram"
    and buf: "length (wire_of packet_buffer) = nat MAX_PACKET_SIZE"
    and decl: "unat (packet_size (of_wire dgram)) \<le> nat MAX_PACKET_SIZE"
  shows "\<exists>buf' out.
           udp_server_turn packet_buffer (Some dgram) now1 now2 = Inr (buf', Some out) \<and>
           length out = unat (packet_size (of_wire dgram)) \<and>
           out = take (unat (packet_size (of_wire dgram))) (wire_of buf') \<and>
           buf' = (of_wire (take (nat MAX_PACKET_SIZE) dgram @
                     drop (length (take (nat MAX_PACKET_SIZE) dgram)) (wire_of packet_buffer)))
                    \<lparr> server_recv := now1, server_send := now2 \<rparr> \<and>
           seq_num buf' = seq_num (of_wire dgram) \<and>
           client_send buf' = client_send (of_wire dgram) \<and>
           packet_size buf' = packet_size (of_wire dgram)"
proof -
  define d where "d = take (nat MAX_PACKET_SIZE) dgram"
  define m where "m = wire_of packet_buffer"
  define b1 where "b1 = of_wire (d @ drop (length d) m)"
  define b3 where "b3 = b1 \<lparr> server_recv := now1, server_send := now2 \<rparr>"
  have dlen: "payload_offset \<le> length d" "length d \<le> length m"
    using hdr buf by (simp_all add: d_def m_def MAX_PACKET_SIZE_def payload_offset_def)
  then have dne: "d \<noteq> []" by (auto simp add: payload_offset_def)
  have st: "store_bytes packet_buffer 0 d = Inr b1"
    using dlen by (simp add: store_bytes_def copy_in_0 b1_def m_def)
  have hd: "seq_num (of_wire d) = seq_num (of_wire dgram)"
      "client_send (of_wire d) = client_send (of_wire dgram)"
      "packet_size (of_wire d) = packet_size (of_wire dgram)"
    by (simp_all add: of_wire_def d_def MAX_PACKET_SIZE_def drop_take)
  have f: "seq_num b1 = seq_num (of_wire dgram)" "client_send b1 = client_send (of_wire dgram)"
      "packet_size b1 = packet_size (of_wire dgram)"
    unfolding b1_def by (simp_all add: of_wire_append_fields [OF dlen(1)] hd)
  have lenb3: "length (wire_of b3) = length m"
    using dlen by (simp add: b3_def b1_def length_wire_of length_payload_of_wire)
  have ld: "load_bytes b3 (unat (packet_size b3)) = Inr (take (unat (packet_size b3)) (wire_of b3))"
    using decl buf f lenb3 by (simp add: load_bytes_def b3_def m_def)
  have "udp_server_turn packet_buffer (Some dgram) now1 now2
          = Inr (b3, Some (take (unat (packet_size b3)) (wire_of b3)))"
    using dne st ld
    by (simp add: udp_server_turn_def and_then_def Let_def b3_def flip: d_def)
  moreover have "length (take (unat (packet_size b3)) (wire_of b3)) = unat (packet_size (of_wire dgram))"
    using decl buf f lenb3 by (simp add: b3_def m_def)
  ultimately show ?thesis
    using f by (simp add: b3_def b1_def d_def m_def)
qed


theorem udp_server_echoes_declared_size_witness:
  "payload_offset \<le> length (wire_of \<lparr> seq_num = 0xFFFFFFFF, client_send = 5, server_recv = 0,
        server_send = 0, client_recv = 0, packet_size = 100, payload = replicate 20 7 \<rparr>) \<and>
   length (wire_of (zero_packet 8148)) = nat MAX_PACKET_SIZE \<and>
   (\<exists>buf' out.
      udp_server_turn (zero_packet 8148)
        (Some (wire_of \<lparr> seq_num = 0xFFFFFFFF, client_send = 5, server_recv = 0,
           server_send = 0, client_recv = 0, packet_size = 100, payload = replicate 20 7 \<rparr>)) 11 12
        = Inr (buf', Some out) \<and>
      length out = 100 \<and> server_recv buf' = 11 \<and> server_send buf' = 12 \<and>
      seq_num buf' = 0xFFFFFFFF \<and> is_sync_seq (seq_num buf'))"
proof -
  let ?dg = "wire_of \<lparr> seq_num = 0xFFFFFFFF, client_send = 5, server_recv = 0,
        server_send = 0, client_recv = 0, packet_size = 100, payload = replicate 20 7 \<rparr>"
  have h1: "payload_offset \<le> length ?dg"
    by (simp add: length_wire_of)
  have h2: "length (wire_of (zero_packet 8148)) = nat MAX_PACKET_SIZE"
    by (simp add: length_wire_of zero_packet_def payload_offset_def MAX_PACKET_SIZE_def)
  have h3: "unat (packet_size (of_wire ?dg)) \<le> nat MAX_PACKET_SIZE"
    by (simp add: of_wire_wire_of MAX_PACKET_SIZE_def)
  show ?thesis
    using h1 h2 udp_server_echoes_declared_size [OF h1 h2 h3, of 11 12]
    by (auto simp add: of_wire_wire_of is_sync_seq_def)
qed

lemma length_wire_zero_buffer: "length (wire_of (zero_packet 8148)) = 8192"
  by (simp add: length_wire_of zero_packet_def payload_offset_def)

lemma udp_server_skips_empty:
  "udp_server_turn packet_buffer (Some []) now1 now2 = Inr (packet_buffer, None)"
  "udp_server_turn packet_buffer None now1 now2 = Inr (packet_buffer, None)"
  by (simp_all add: udp_server_turn_def)

lemma packet_size_of_wire_short:
  "length d \<le> 40 \<Longrightarrow> packet_size (of_wire (d @ drop (length d) w)) = packet_size (of_wire w)"
  by (simp add: of_wire_def)

text \<open>
  The claim as stated fails, since not every inbound datagram is echoed at its declared
  size. An empty datagram is not echoed at all: \<^verbatim>\<open>recvfrom\<close> returns 0 and the loop goes to
  the next turn. A datagram of 10 bytes has no \<open>packet_size\<close> field, and the server sends as
  many bytes as the field in its buffer held before, here 100. And for a datagram of 64 bytes
  that declares 9000 the read for \<^verbatim>\<open>sendto\<close> runs off the end of the buffer of 8192 bytes.
\<close>

theorem udp_server_not_every_datagram:
  "udp_server_turn (zero_packet 8148) (Some []) 11 12 = Inr (zero_packet 8148, None) \<and>
   udp_server_turn ((zero_packet 8148) \<lparr> packet_size := 100 \<rparr>) (Some (replicate 10 7)) 11 12
     = Inr ((of_wire (replicate 10 7 @
                drop 10 (wire_of ((zero_packet 8148) \<lparr> packet_size := 100 \<rparr>))))
              \<lparr> server_recv := 11, server_send := 12 \<rparr>,
            Some (take 100 (wire_of
              ((of_wire (replicate 10 7 @
                  drop 10 (wire_of ((zero_packet 8148) \<lparr> packet_size := 100 \<rparr>))))
                \<lparr> server_recv := 11, server_send := 12 \<rparr>)))) \<and>
   length (take 100 (wire_of
              ((of_wire (replicate 10 7 @
                  drop 10 (wire_of ((zero_packet 8148) \<lparr> packet_size := 100 \<rparr>))))
                \<lparr> server_recv := 11, server_send := 12 \<rparr>))) = 100 \<and>
   udp_server_turn (zero_packet 8148)
     (Some (wire_of \<lparr> seq_num = 1, client_send = 5, server_recv = 0, server_send = 0,
                      client_recv = 0, packet_size = 9000, payload = replicate 20 7 \<rparr>)) 11 12
     = Inl OutOfBounds"
proof -
  let ?p = "\<lparr> seq_num = 1, client_send = 5, server_recv = 0, server_send = 0,
                      client_recv = 0, packet_size = 9000, payload = replicate 20 7 \<rparr> :: packet_t"
  let ?dg = "wire_of ?p"
  let ?buf = "zero_packet 8148"
  let ?old = "(zero_packet 8148) \<lparr> packet_size := 100 \<rparr>"
  let ?sh = "replicate 10 7 :: byte list"
  let ?b1 = "of_wire (?sh @ drop 10 (wire_of ?old))"
  let ?b3 = "?b1 \<lparr> server_recv := 11, server_send := 12 \<rparr>"
  have e: "udp_server_turn ?buf (Some []) 11 12 = Inr (?buf, None)"
    by (simp add: udp_server_turn_def)
  have lo: "length (wire_of ?old) = 8192"
    by (simp add: length_wire_of zero_packet_def payload_offset_def)
  have ts: "take (nat MAX_PACKET_SIZE) ?sh = ?sh" "?sh \<noteq> []"
    by (simp_all add: MAX_PACKET_SIZE_def)
  have sts: "store_bytes ?old 0 ?sh = Inr ?b1"
    using lo by (simp add: store_bytes_def copy_in_0)
  have pss: "packet_size ?b1 = 100"
    using packet_size_of_wire_short [of ?sh "wire_of ?old"] by (simp add: of_wire_wire_of)
  have lens: "length (wire_of ?b3) = 8192"
    using lo by (simp add: length_wire_of length_payload_of_wire payload_offset_def)
  have s: "udp_server_turn ?old (Some ?sh) 11 12 = Inr (?b3, Some (take 100 (wire_of ?b3)))"
    unfolding udp_server_turn_def option.case ts Let_def
    using ts(2) lens by (simp add: sts and_then_def load_bytes_def pss)
  have sl: "length (take 100 (wire_of ?b3)) = 100"
    using lens by simp
  have l: "length ?dg = 64"
    by (simp add: length_wire_of payload_offset_def)
  then have t: "take (nat MAX_PACKET_SIZE) ?dg = ?dg" "?dg \<noteq> []"
    by (auto simp add: MAX_PACKET_SIZE_def)
  have st: "store_bytes ?buf 0 ?dg = Inr (of_wire (?dg @ drop 64 (wire_of ?buf)))"
    using l by (simp add: store_bytes_def copy_in_0 length_wire_zero_buffer)
  have ps: "packet_size (of_wire (?dg @ drop 64 (wire_of ?buf))) = 9000"
    using l by (simp add: of_wire_append_fields payload_offset_def of_wire_wire_of)
  have len: "length (wire_of (of_wire (?dg @ drop 64 (wire_of ?buf)))) = 8192"
    using l length_wire_zero_buffer
    by (simp add: length_wire_of length_payload_of_wire payload_offset_def)
  have o: "udp_server_turn ?buf (Some ?dg) 11 12 = Inl OutOfBounds"
    unfolding udp_server_turn_def option.case t Let_def
    using t(2) by (simp add: st and_then_def load_bytes_def ps len)
  from e s sl o show ?thesis by (intro conjI)
qed

subsection \<open>The datagram client\<close>

lemma validate_packet_cong:
  "packet_size p = packet_size q \<Longrightarrow> payload p = payload q \<Longrightarrow> validate_packet p = validate_packet q"
  by (simp add: validate_packet_def)


lemma udp_iter_lost:
  assumes "unat (packet_size (packet st)) \<le> length (wire_of (packet st))"
    and "\<And>sent. udp_net env i sent = RecvFailed"
  shows "udp_client_iter ts off env i st =
           Inr (st \<lparr> packet := (packet st) \<lparr> seq_num := data_seq_num i, client_send := udp_now_send env i,
                             server_recv := 0, server_send := 0 \<rparr> \<rparr>)"
  using assms by (simp add: udp_client_iter_def Let_def load_bytes_def and_then_def length_wire_of)

lemma udp_iter_echo:
  assumes inv: "client_inv (packet st)"
    and net: "\<And>sent. udp_net env i sent = Received (echo_of sent a b)"
  shows "udp_client_iter ts off env i st =
           Inr (st \<lparr> packet := (packet st) \<lparr> seq_num := data_seq_num i, client_send := udp_now_send env i,
                             server_recv := a, server_send := b, client_recv := udp_now_recv env i \<rparr>,
                     samples := samples st @ [measure_sample ts off
                        ((packet st) \<lparr> seq_num := data_seq_num i, client_send := udp_now_send env i,
                             server_recv := a, server_send := b, client_recv := udp_now_recv env i \<rparr>)] \<rparr>)"
proof -
  define p0 where "p0 = (packet st) \<lparr> seq_num := data_seq_num i, client_send := udp_now_send env i,
                             server_recv := 0, server_send := 0 \<rparr>"
  define p1 where "p1 = p0 \<lparr> server_recv := a, server_send := b \<rparr>"
  define p2 where "p2 = p1 \<lparr> client_recv := udp_now_recv env i \<rparr>"
  have n: "unat (packet_size p0) = length (wire_of p0)"
    using inv by (simp add: client_inv_def p0_def length_wire_of)
  have ld: "load_bytes p0 (length (wire_of p0)) = Inr (wire_of p0)"
    by (simp add: load_bytes_def)
  have ec: "echo_of (wire_of p0) a b = wire_of p1"
    by (simp add: echo_of_def of_wire_wire_of p1_def)
  have l1: "length (wire_of p1) = length (wire_of p0)"
    by (simp add: p1_def length_wire_of)
  have ne: "wire_of p1 \<noteq> []"
    using length_wire_of [of p1] by (auto simp add: payload_offset_def)
  have st: "store_bytes p0 0 (wire_of p1) = Inr p1"
    by (simp add: store_bytes_def l1 copy_in_def of_wire_wire_of)
  have v: "validate_packet p2 = Inr True"
    using inv validate_packet_cong [of p2 "packet st"]
    by (simp add: client_inv_def p2_def p1_def p0_def)
  have sq: "seq_num p2 = data_seq_num i" "seq_num p1 = data_seq_num i"
    by (simp_all add: p2_def p1_def p0_def)
  have ne0: "wire_of p0 \<noteq> []"
    using ne l1 by auto
  have "udp_client_iter ts off env i st =
          Inr (st \<lparr> packet := p2, samples := samples st @ [measure_sample ts off p2] \<rparr>)"
    unfolding udp_client_iter_def Let_def p0_def [symmetric]
    by (simp add: ld and_then_def net ec n l1 ne ne0 st v sq flip: p2_def)
  then show ?thesis by (simp add: p2_def p1_def p0_def)
qed

lemma udp_client_loop_Suc:
  "udp_client_loop ts off env (Suc n) st =
     and_then (udp_client_loop ts off env n st) (udp_client_iter ts off env n)"
  by (simp add: udp_client_loop_def)

lemma client_inv_header:
  "client_inv p \<Longrightarrow>
   client_inv (p \<lparr> seq_num := s, client_send := c, server_recv := a, server_send := b \<rparr>) \<and>
   client_inv (p \<lparr> seq_num := s, client_send := c, server_recv := a, server_send := b, client_recv := r \<rparr>)"
  using validate_packet_cong [of "p \<lparr> seq_num := s, client_send := c, server_recv := a, server_send := b \<rparr>" p]
    validate_packet_cong [of "p \<lparr> seq_num := s, client_send := c, server_recv := a, server_send := b, client_recv := r \<rparr>" p]
  by (simp add: client_inv_def length_wire_of)

lemma kept_Suc_lost: "Suc n mod 3 = 0 \<Longrightarrow> Suc n - Suc n div 3 = n - n div 3"
  by (simp add: Suc_diff_le div_le_dividend mod_Suc div_Suc split: if_splits)

lemma kept_Suc_echoed: "Suc n mod 3 \<noteq> 0 \<Longrightarrow> Suc n - Suc n div 3 = Suc (n - n div 3)"
  by (simp add: Suc_diff_le div_le_dividend mod_Suc div_Suc split: if_splits)

lemma udp_loop_lossy:
  assumes "client_inv (packet st)"
  shows "\<exists>st'. udp_client_loop ts off (lossy_echo a b c) n st = Inr st' \<and>
           client_inv (packet st') \<and>
           length (samples st') = length (samples st) + (n - n div 3)"
proof (induction n)
  case 0
  then show ?case using assms by (simp add: udp_client_loop_def)
next
  case (Suc n)
  then obtain st1 where l: "udp_client_loop ts off (lossy_echo a b c) n st = Inr st1"
    and i: "client_inv (packet st1)"
    and c: "length (samples st1) = length (samples st) + (n - n div 3)"
    by blast
  let ?p0 = "(packet st1) \<lparr> seq_num := data_seq_num n, client_send := udp_now_send (lossy_echo a b c) n,
                             server_recv := 0, server_send := 0 \<rparr>"
  let ?p2 = "(packet st1) \<lparr> seq_num := data_seq_num n, client_send := udp_now_send (lossy_echo a b c) n,
                             server_recv := b n, server_send := b n,
                             client_recv := udp_now_recv (lossy_echo a b c) n \<rparr>"
  have unf: "udp_client_loop ts off (lossy_echo a b c) (Suc n) st
               = udp_client_iter ts off (lossy_echo a b c) n st1"
    by (simp only: udp_client_loop_Suc l and_then_def sum.case)
  show ?case
  proof (cases "Suc n mod 3 = 0")
    case True
    then have net: "\<And>sent. udp_net (lossy_echo a b c) n sent = RecvFailed"
      by (simp add: lossy_echo_def)
    have le: "unat (packet_size (packet st1)) \<le> length (wire_of (packet st1))"
      using i by (simp add: client_inv_def)
    have r: "udp_client_loop ts off (lossy_echo a b c) (Suc n) st = Inr (st1 \<lparr> packet := ?p0 \<rparr>)"
      unfolding unf by (rule udp_iter_lost [OF le net])
    have i': "client_inv (packet (st1 \<lparr> packet := ?p0 \<rparr>))"
      using client_inv_header [OF i] by simp
    have "samples (st1 \<lparr> packet := ?p0 \<rparr>) = samples st1"
      by simp
    then have c': "length (samples (st1 \<lparr> packet := ?p0 \<rparr>)) = length (samples st) + (Suc n - Suc n div 3)"
      by (simp only: c kept_Suc_lost [OF True])
    from r i' c' show ?thesis by blast
  next
    case False
    then have net: "\<And>sent. udp_net (lossy_echo a b c) n sent = Received (echo_of sent (b n) (b n))"
      by (simp add: lossy_echo_def)
    let ?st2 = "st1 \<lparr> packet := ?p2, samples := samples st1 @ [measure_sample ts off ?p2] \<rparr>"
    have r: "udp_client_loop ts off (lossy_echo a b c) (Suc n) st = Inr ?st2"
      unfolding unf by (rule udp_iter_echo [OF i net])
    have i': "client_inv (packet ?st2)"
      using client_inv_header [OF i] by simp
    have "length (samples ?st2) = Suc (length (samples st1))"
      by simp
    then have c': "length (samples ?st2) = length (samples st) + (Suc n - Suc n div 3)"
      by (simp only: c kept_Suc_echoed [OF False] add_Suc_right)
    from r i' c' show ?thesis by blast
  qed
qed

lemma summarize_Some:
  "smps \<noteq> [] \<Longrightarrow> \<exists>st. summarize n smps = Some st \<and> st_received st = length smps \<and> st_sent st = n"
  by (cases smps) (simp_all add: summarize_def Let_def)

lemma length_wire_probe64: "length (wire_of probe64) = 64"
  by (simp add: length_wire_of probe64_def payload_offset_def)


text \<open>
  C8. On the datagram transport a receive that times out costs the iteration its sample
  and nothing else: the iteration ends without a fault and the loop goes on. And for every
  \<open>N\<close>, the client run over the channel that loses every third packet and echoes the others
  faithfully records exactly \<open>N - N div 3\<close> samples, ends, and prints the summary for them
  (for \<open>N = 0\<close> there is no sample and the program prints that no packet was exchanged). The
  one-second bound of the wait is real time and is not modelled: a timeout is the event
  \<open>RecvFailed\<close>.
\<close>

theorem udp_client_every_third_lost:
  assumes "MIN_PACKET_SIZE \<le> cfg_packet_size config" "cfg_packet_size config \<le> MAX_PACKET_SIZE"
    and "nat (cfg_packet_size config) \<le> avail"
    and "num_packets config = int N"
  shows "(\<forall>(env :: udp_env) i (st :: client_state) ts off.
            unat (packet_size (packet st)) \<le> length (wire_of (packet st)) \<and>
            (\<forall>sent. udp_net env i sent = RecvFailed) \<longrightarrow>
            (\<exists>st'. udp_client_iter ts off env i st = Inr st' \<and> samples st' = samples st)) \<and>
         (\<exists>smps. run_udp_client avail config stack senv (lossy_echo t_send t_server t_recv)
                    = Inr (smps, summarize (int N) smps) \<and>
                  length smps = N - N div 3 \<and>
                  (0 < N \<longrightarrow> (\<exists>st. summarize (int N) smps = Some st \<and>
                                   st_sent st = int N \<and> st_received st = N - N div 3)))"
proof (intro conjI allI impI)
  fix env :: udp_env and i and st :: client_state and ts off
  assume "unat (packet_size (packet st)) \<le> length (wire_of (packet st)) \<and>
            (\<forall>sent. udp_net env i sent = RecvFailed)"
  then show "\<exists>st'. udp_client_iter ts off env i st = Inr st' \<and> samples st' = samples st"
    using udp_iter_lost [of st env i ts off] by simp
next
  have rng: "int sizeof_packet_t \<le> cfg_packet_size config" "cfg_packet_size config \<le> int INT_MAX"
    using assms
    by (simp_all add: MIN_PACKET_SIZE_def MAX_PACKET_SIZE_def sizeof_packet_t_def INT_MAX_def)
  from created_packet_valid [OF rng assms(3)]
  obtain p where cp: "create_packet avail (cfg_packet_size config) = Inr p"
    and v: "validate_packet p = Inr True"
    and ps: "unat (packet_size p) = nat (cfg_packet_size config)"
    and len: "length (payload p) = nat (cfg_packet_size config) - payload_offset"
    by blast
  have "client_inv p"
    using v ps len rng by (simp add: client_inv_def length_wire_of sizeof_packet_t_def payload_offset_def)
  then have "client_inv (packet \<lparr> packet = p, samples = [] \<rparr>)" by simp
  from udp_loop_lossy [OF this, of "time_sync config" _ t_send t_server t_recv N]
  obtain st' where
    l: "udp_client_loop (time_sync config)
          (word_of_int (if time_sync config then synchronize_clocks stack senv True else 0))
          (lossy_echo t_send t_server t_recv) N \<lparr> packet = p, samples = [] \<rparr> = Inr st'"
    and c: "length (samples st') = N - N div 3"
    by force
  have run: "run_udp_client avail config stack senv (lossy_echo t_send t_server t_recv)
               = Inr (samples st', summarize (int N) (samples st'))"
    using cp l assms(4) by (simp add: run_udp_client_def and_then_def Let_def)
  have "0 < N \<longrightarrow> samples st' \<noteq> []"
  proof
    assume "0 < N"
    then have "N div 3 < N" by (rule div_less_dividend [rotated]) simp
    then have "0 < length (samples st')" by (simp only: c zero_less_diff)
    then show "samples st' \<noteq> []" by simp
  qed
  then have "0 < N \<longrightarrow> (\<exists>st. summarize (int N) (samples st') = Some st \<and>
                                   st_sent st = int N \<and> st_received st = N - N div 3)"
    using summarize_Some [of "samples st'" "int N"] c by auto
  with run c show "\<exists>smps. run_udp_client avail config stack senv (lossy_echo t_send t_server t_recv)
                    = Inr (smps, summarize (int N) smps) \<and>
                  length smps = N - N div 3 \<and>
                  (0 < N \<longrightarrow> (\<exists>st. summarize (int N) smps = Some st \<and>
                                   st_sent st = int N \<and> st_received st = N - N div 3))"
    by blast
qed

theorem udp_client_every_third_lost_witness:
  "MIN_PACKET_SIZE \<le> cfg_packet_size \<lparr> num_packets = 6, cfg_packet_size = 64, time_sync = False \<rparr> \<and>
   cfg_packet_size \<lparr> num_packets = 6, cfg_packet_size = 64, time_sync = False \<rparr> \<le> MAX_PACKET_SIZE \<and>
   (\<exists>st'. udp_client_iter False 0 (lossy_echo of_nat of_nat of_nat) 2 \<lparr> packet = probe64, samples = [] \<rparr>
            = Inr st' \<and> samples st' = []) \<and>
   (\<exists>smps. run_udp_client 64 \<lparr> num_packets = 6, cfg_packet_size = 64, time_sync = False \<rparr> []
              (dead_link of_nat) (lossy_echo of_nat of_nat of_nat) = Inr (smps, summarize 6 smps) \<and>
            length smps = 4 \<and>
            (\<exists>st. summarize 6 smps = Some st \<and> st_sent st = 6 \<and> st_received st = 4))"
proof -
  let ?cfg = "\<lparr> num_packets = 6, cfg_packet_size = 64, time_sync = False \<rparr>"
  have h1: "MIN_PACKET_SIZE \<le> cfg_packet_size ?cfg" by (simp add: MIN_PACKET_SIZE_def)
  have h2: "cfg_packet_size ?cfg \<le> MAX_PACKET_SIZE" by (simp add: MAX_PACKET_SIZE_def)
  have h3: "nat (cfg_packet_size ?cfg) \<le> 64" by simp
  have h4: "num_packets ?cfg = int 6" by simp
  have lost: "unat (packet_size (packet \<lparr> packet = probe64, samples = [] \<rparr>))
                \<le> length (wire_of (packet \<lparr> packet = probe64, samples = [] \<rparr>)) \<and>
              (\<forall>sent. udp_net (lossy_echo of_nat of_nat of_nat) 2 sent = RecvFailed)"
    using length_wire_probe64 by (simp add: lossy_echo_def) (simp add: probe64_def)
  note t = udp_client_every_third_lost [OF h1 h2 h3 h4, of "[]" "dead_link of_nat" of_nat of_nat of_nat]
  have a: "\<exists>st'. udp_client_iter False 0 (lossy_echo of_nat of_nat of_nat) 2
                      \<lparr> packet = probe64, samples = [] \<rparr> = Inr st' \<and>
                    samples st' = samples \<lparr> packet = probe64, samples = [] \<rparr>"
    by (rule t [THEN conjunct1, rule_format, OF lost])
  note b = t [THEN conjunct2]
  from a obtain st' where a': "udp_client_iter False 0 (lossy_echo of_nat of_nat of_nat) 2
                      \<lparr> packet = probe64, samples = [] \<rparr> = Inr st'" "samples st' = []"
    by auto
  have n: "6 - 6 div 3 = (4::nat)" "int 6 = 6" "0 < (6::nat)" by simp_all
  from b obtain smps st where b': "run_udp_client 64 ?cfg [] (dead_link of_nat) (lossy_echo of_nat of_nat of_nat)
                    = Inr (smps, summarize 6 smps)" "length smps = 4"
      "summarize 6 smps = Some st" "st_sent st = 6" "st_received st = 4"
    unfolding n by auto
  have c1: "\<exists>st'. udp_client_iter False 0 (lossy_echo of_nat of_nat of_nat) 2
              \<lparr> packet = probe64, samples = [] \<rparr> = Inr st' \<and> samples st' = []"
    using a' by blast
  have c2: "\<exists>smps. run_udp_client 64 ?cfg [] (dead_link of_nat) (lossy_echo of_nat of_nat of_nat)
              = Inr (smps, summarize 6 smps) \<and> length smps = 4 \<and>
            (\<exists>st. summarize 6 smps = Some st \<and> st_sent st = 6 \<and> st_received st = 4)"
    using b' by blast
  show ?thesis
    by (intro conjI) (rule h1 h2 c1 c2)+
qed

subsection \<open>Jitter\<close>

text \<open>
  C5. For every non-empty list of samples the summary reports as jitter the population
  standard deviation of the one-way latencies about their mean (the sum of squared
  deviations divided by the number of samples), and as average their mean; for the
  latencies 10, 20, 30 the mean is 20 and the jitter is \<open>sqrt (200 / 3)\<close>, which lies between
  8.1645 and 8.1655. Doubles are taken as real numbers.
\<close>

theorem jitter_is_population_std_dev:
  assumes "smps \<noteq> []"
  shows "(\<exists>st. summarize n smps = Some st \<and>
            st_jitter st = population_std_dev (map one_way_latency smps) \<and>
            st_avg_latency st = mean (map one_way_latency smps)) \<and>
         avg_of [10, 20, 30] = 20 \<and> jitter_of [10, 20, 30] = sqrt (200 / 3) \<and>
         8.1645 < sqrt (200 / 3 :: real) \<and> sqrt (200 / 3 :: real) < 8.1655"
proof -
  from assms obtain s0 rest where "smps = s0 # rest" by (cases smps) auto
  then have "\<exists>st. summarize n smps = Some st \<and>
            st_jitter st = population_std_dev (map one_way_latency smps) \<and>
            st_avg_latency st = mean (map one_way_latency smps)"
    by (simp add: summarize_def Let_def jitter_of_psd avg_of_mean)
  then show ?thesis using avg_of_example jitter_of_example sqrt_200_3_bounds by blast
qed

theorem jitter_is_population_std_dev_witness:
  "\<exists>st. summarize 3
     [\<lparr> smp_seq_num = 1, smp_packet_size = 64, one_way_latency = 10, rtt = 20, server_processing = 0 \<rparr>,
      \<lparr> smp_seq_num = 2, smp_packet_size = 64, one_way_latency = 20, rtt = 40, server_processing = 0 \<rparr>,
      \<lparr> smp_seq_num = 3, smp_packet_size = 64, one_way_latency = 30, rtt = 60, server_processing = 0 \<rparr>]
       = Some st \<and>
     st_jitter st = sqrt (200 / 3) \<and> st_avg_latency st = 20"
proof -
  have ne: "[\<lparr> smp_seq_num = 1, smp_packet_size = 64, one_way_latency = 10, rtt = 20, server_processing = 0 \<rparr>,
      \<lparr> smp_seq_num = 2, smp_packet_size = 64, one_way_latency = 20, rtt = 40, server_processing = 0 \<rparr>,
      \<lparr> smp_seq_num = 3, smp_packet_size = 64, one_way_latency = 30, rtt = 60, server_processing = 0 \<rparr>] \<noteq> []"
    by simp
  from jitter_is_population_std_dev [OF ne, of 3] show ?thesis
    by (simp add: population_std_dev_def mean_def)
qed



subsection \<open>The stream client\<close>

lemma le_bytes_le_word:
  assumes "length bs = n" "8 * n \<le> LENGTH('a::len)"
  shows "le_bytes n (le_word bs :: 'a word) = bs"
proof (rule nth_equalityI)
  show "length (le_bytes n (le_word bs :: 'a word)) = length bs"
    using assms by (simp add: length_le_bytes)
next
  fix k assume "k < length (le_bytes n (le_word bs :: 'a word))"
  then have k: "k < n" by (simp add: length_le_bytes)
  have "ucast (drop_bit (8 * k) (le_word bs :: 'a word)) = bs ! k"
  proof (rule bit_word_eqI)
    fix j assume j: "j < LENGTH(8)"
    then have "8 * k + j < 8 * n" using k by simp
    then have a: "8 * k + j < LENGTH('a)" using assms by simp
    have b: "(8 * k + j) div 8 = k" "(8 * k + j) mod 8 = j" using j by simp_all
    show "bit (ucast (drop_bit (8 * k) (le_word bs :: 'a word)) :: byte) j \<longleftrightarrow> bit (bs ! k) j"
      using j a b k assms by (simp add: bit_simps bit_le_word)
  qed
  then show "le_bytes n (le_word bs :: 'a word) ! k = bs ! k"
    using k by (simp add: le_bytes_def)
qed

lemma le_bytes_le_word_64: "length bs = 8 \<Longrightarrow> le_bytes 8 (le_word bs :: u64) = bs"
  by (rule le_bytes_le_word) simp_all

lemma le_bytes_le_word_32: "length bs = 4 \<Longrightarrow> le_bytes 4 (le_word bs :: u32) = bs"
  by (rule le_bytes_le_word) simp_all

lemma wire_of_of_wire: "payload_offset \<le> length bs \<Longrightarrow> wire_of (of_wire bs) = bs"
proof -
  assume a: "payload_offset \<le> length bs"
  have split: "take 8 bs @ take 8 (drop 8 bs) @ take 8 (drop 16 bs) @ take 8 (drop 24 bs) @
             take 8 (drop 32 bs) @ take 4 (drop 40 bs) @ drop 44 bs = bs"
    by (simp add: take_add [symmetric] drop_take flip: append_assoc)
  have l: "length (take 8 bs) = 8" "length (take 8 (drop 8 bs)) = 8" "length (take 8 (drop 16 bs)) = 8"
    "length (take 8 (drop 24 bs)) = 8" "length (take 8 (drop 32 bs)) = 8" "length (take 4 (drop 40 bs)) = 4"
    using a by (simp_all add: payload_offset_def)
  have "wire_of (of_wire bs) = take 8 bs @ take 8 (drop 8 bs) @ take 8 (drop 16 bs) @ take 8 (drop 24 bs) @
             take 8 (drop 32 bs) @ take 4 (drop 40 bs) @ drop 44 bs"
    unfolding wire_of_def of_wire_def
    unfolding packet_t.simps le_bytes_le_word_64 [OF l(1)] le_bytes_le_word_64 [OF l(2)]
      le_bytes_le_word_64 [OF l(3)] le_bytes_le_word_64 [OF l(4)] le_bytes_le_word_64 [OF l(5)]
      le_bytes_le_word_32 [OF l(6)] payload_offset_def ..
  then show ?thesis by (simp only: split)
qed

lemma sint_small: "unat (w :: u32) < 2 ^ 31 \<Longrightarrow> sint w = int (unat w)"
proof -
  assume a: "unat w < 2 ^ 31"
  have "int (unat w) < int (2 ^ 31)" using a by (simp only: of_nat_less_iff)
  then have "uint w < 2 ^ 31" by simp
  moreover have "- (2 ^ 31) \<le> uint w" by (rule order_trans [of _ 0]) simp_all
  ultimately have "signed_take_bit 31 (uint w) = uint w"
    by (intro signed_take_bit_int_eq_self)
  then have "sint w = uint w"
    by (simp add: sint_uint)
  then show ?thesis by simp
qed

lemma remaining_bytes_eq:
  assumes "sizeof_packet_t \<le> unat (ps :: u32)" "unat ps < 2 ^ 31"
  shows "sint (ps - word_of_int (int sizeof_packet_t)) = int (unat ps - sizeof_packet_t)"
proof -
  have w: "word_of_int (int sizeof_packet_t) = (48 :: u32)" by (simp add: sizeof_packet_t_def)
  have "(48 :: u32) \<le> ps" using assms(1) by (simp add: word_le_nat_alt sizeof_packet_t_def)
  then have "unat (ps - 48) = unat ps - unat (48 :: u32)" by (rule unat_sub)
  then have u: "unat (ps - 48) = unat ps - 48" by simp
  then have "unat (ps - 48) < 2 ^ 31" using assms(2) by simp
  then have "sint (ps - 48) = int (unat (ps - 48))" by (rule sint_small)
  then show ?thesis unfolding w u by (simp add: sizeof_packet_t_def)
qed

lemma of_wire_take_header:
  "payload_offset \<le> n \<Longrightarrow> packet_size (of_wire (take n bs)) = packet_size (of_wire bs)"
  by (simp add: of_wire_def payload_offset_def drop_take min_def)

lemma tcp_receive_two_reads:
  assumes szq: "unat (packet_size q) = length (wire_of q)"
    and same: "length (wire_of q) = length (wire_of p)"
    and big: "sizeof_packet_t \<le> length (wire_of q)" "length (wire_of q) < 2 ^ 31"
    and r1: "r1 \<noteq> []" "length r1 \<le> length (wire_of q) - sizeof_packet_t"
  shows "tcp_receive p (Seg (take sizeof_packet_t (wire_of q)) # Seg r1 # rest) =
           Inr (Go (of_wire (take sizeof_packet_t (wire_of q) @ r1 @
                       drop (sizeof_packet_t + length r1) (wire_of p)),
                    int (sizeof_packet_t + length r1), rest))"
proof -
  define h where "h = take sizeof_packet_t (wire_of q)"
  define X where "X = drop sizeof_packet_t (wire_of p)"
  define p1 where "p1 = of_wire (h @ X)"
  have lh: "length h = sizeof_packet_t" using big by (simp add: h_def)
  have rc1: "recv sizeof_packet_t (Seg h # Seg r1 # rest) = (int sizeof_packet_t, h, Seg r1 # rest)"
    by (simp add: lh)
  have st1: "store_bytes p 0 h = Inr p1"
    using big same by (simp add: store_bytes_def lh copy_in_def p1_def X_def)
  have po: "payload_offset \<le> length h" "payload_offset \<le> sizeof_packet_t"
    by (simp_all add: lh payload_offset_def sizeof_packet_t_def)
  have "packet_size p1 = packet_size (of_wire h)"
    unfolding p1_def by (rule of_wire_append_fields [OF po(1)])
  also have "\<dots> = packet_size (of_wire (wire_of q))"
    unfolding h_def by (rule of_wire_take_header [OF po(2)])
  finally have ps: "packet_size p1 = packet_size q" by (simp add: of_wire_wire_of)
  have rem: "sint (packet_size p1 - word_of_int (int sizeof_packet_t))
               = int (length (wire_of q) - sizeof_packet_t)"
    using remaining_bytes_eq [of "packet_size q"] big szq by (simp add: ps)
  have rem': "sint (packet_size p1 - word_of_nat sizeof_packet_t)
               = int (length (wire_of q) - sizeof_packet_t)"
    using rem by simp
  have nd: "nat (int (length (wire_of q)) - int sizeof_packet_t) = length (wire_of q) - sizeof_packet_t"
    by arith
  have pos: "0 < length (wire_of q) - sizeof_packet_t" using r1 by (cases r1) auto
  have rc2: "recv (length (wire_of q) - sizeof_packet_t) (Seg r1 # rest) = (int (length r1), r1, rest)"
    using r1 by simp
  have w1: "wire_of p1 = h @ X"
    unfolding p1_def using po by (intro wire_of_of_wire) simp
  have lx: "length X = length (wire_of q) - sizeof_packet_t"
    by (simp add: X_def same)
  have st2: "store_bytes p1 sizeof_packet_t r1 = Inr (of_wire (h @ r1 @ drop (length r1) X))"
    using r1 by (simp add: store_bytes_def w1 lh lx copy_in_def)
  have szpos: "0 < sizeof_packet_t" by (simp add: sizeof_packet_t_def)
  have dr: "drop (length r1) X = drop (sizeof_packet_t + length r1) (wire_of p)"
    by (simp add: X_def add.commute)
  have "tcp_receive p (Seg h # Seg r1 # rest) =
          Inr (Go (of_wire (h @ r1 @ drop (length r1) X), int (sizeof_packet_t + length r1), rest))"
    unfolding tcp_receive_def rc1
    using pos szpos
    by (simp add: st1 and_then_def rem' nd Let_def rc2 st2 del: recv.simps)
  then show ?thesis by (simp only: h_def dr)
qed

text \<open>
  The part of the framing that works: a reply whose first \<open>sizeof(packet_t)\<close> bytes arrive in
  one read and whose remaining bytes arrive in the next one is rebuilt completely.
\<close>

lemma tcp_receive_header_then_rest:
  assumes szq: "unat (packet_size q) = length (wire_of q)"
    and same: "length (wire_of q) = length (wire_of p)"
    and big: "sizeof_packet_t < length (wire_of q)" "length (wire_of q) < 2 ^ 31"
  shows "tcp_receive p (Seg (take sizeof_packet_t (wire_of q)) #
                         Seg (drop sizeof_packet_t (wire_of q)) # rest) =
           Inr (Go (q, int (length (wire_of q)), rest))"
proof -
  let ?r1 = "drop sizeof_packet_t (wire_of q)"
  have a: "sizeof_packet_t \<le> length (wire_of q)" using big by simp
  have b: "?r1 \<noteq> []" "length ?r1 \<le> length (wire_of q) - sizeof_packet_t" using big by simp_all
  have c: "drop (sizeof_packet_t + length ?r1) (wire_of p) = []" using big same by simp
  have d: "sizeof_packet_t + length ?r1 = length (wire_of q)" using big by simp
  show ?thesis
    unfolding tcp_receive_two_reads [OF szq same a big(2) b] d
    by (simp add: of_wire_wire_of same [symmetric])
qed

lemma tcp_iter_echo:
  assumes inv: "client_inv (packet st)"
    and big: "sizeof_packet_t < length (wire_of (packet st))" "length (wire_of (packet st)) < 2 ^ 31"
    and q0: "inq st = []"
    and net: "\<And>sent. tcp_net env i sent =
                [Seg (take sizeof_packet_t (echo_of sent a b)), Seg (drop sizeof_packet_t (echo_of sent a b))]"
  shows "tcp_client_iter ts off env i st =
           Inr (Go (st \<lparr> packet := (packet st) \<lparr> seq_num := data_seq_num i, client_send := tcp_now_send env i,
                             server_recv := a, server_send := b, client_recv := tcp_now_recv env i \<rparr>,
                     inq := [],
                     samples := samples st @ [measure_sample ts off
                        ((packet st) \<lparr> seq_num := data_seq_num i, client_send := tcp_now_send env i,
                             server_recv := a, server_send := b, client_recv := tcp_now_recv env i \<rparr>)] \<rparr>))"
proof -
  define p0 where "p0 = (packet st) \<lparr> seq_num := data_seq_num i, client_send := tcp_now_send env i,
                             server_recv := 0, server_send := 0 \<rparr>"
  define p1 where "p1 = p0 \<lparr> server_recv := a, server_send := b \<rparr>"
  define p2 where "p2 = p1 \<lparr> client_recv := tcp_now_recv env i \<rparr>"
  have n: "unat (packet_size p0) = length (wire_of p0)"
    using inv by (simp add: client_inv_def p0_def length_wire_of)
  have ld: "load_bytes p0 (length (wire_of p0)) = Inr (wire_of p0)"
    by (simp add: load_bytes_def)
  have ec: "echo_of (wire_of p0) a b = wire_of p1"
    by (simp add: echo_of_def of_wire_wire_of p1_def)
  have l1: "length (wire_of p1) = length (wire_of p0)" "length (wire_of p0) = length (wire_of (packet st))"
    by (simp_all add: p1_def p0_def length_wire_of)
  have n1: "unat (packet_size p1) = length (wire_of p1)"
    using n by (simp add: p1_def length_wire_of)
  have rc: "tcp_receive p0 [Seg (take sizeof_packet_t (wire_of p1)), Seg (drop sizeof_packet_t (wire_of p1))]
              = Inr (Go (p1, int (length (wire_of p1)), []))"
    using big l1 by (intro tcp_receive_header_then_rest [OF n1]) simp_all
  have v: "validate_packet p2 = Inr True"
    using inv validate_packet_cong [of p2 "packet st"]
    by (simp add: client_inv_def p2_def p1_def p0_def)
  have "tcp_client_iter ts off env i st =
          Inr (Go (st \<lparr> packet := p2, inq := [], samples := samples st @ [measure_sample ts off p2] \<rparr>))"
  proof -
    have s1: "load_bytes p0 (unat (packet_size p0)) = Inr (wire_of p0)"
      by (simp only: n ld)
    have s2: "tcp_receive p0 (inq st @ tcp_net env i (wire_of p0))
                = Inr (Go (p1, int (length (wire_of p1)), []))"
      by (simp only: q0 net ec append_Nil rc)
    show ?thesis
      unfolding tcp_client_iter_def Let_def p0_def [symmetric]
      by (simp only: s1 s2 and_then_def sum.case turn.case prod.case p2_def [symmetric] v
            not_True_eq_False if_False)
  qed
  then show ?thesis by (simp add: p2_def p1_def p0_def)
qed

lemma drop_wire_of:
  "payload_offset \<le> n \<Longrightarrow> drop n (wire_of p) = drop (n - payload_offset) (payload p)"
  by (simp add: wire_of_def length_le_bytes payload_offset_def)

lemma length_probe_sent: "length (wire_of probe_sent) = 64"
  by (simp add: length_wire_of probe_sent_def probe64_def payload_offset_def)

lemma probe_echo_wire:
  "probe_echo = wire_of (probe_sent \<lparr> server_recv := 1040, server_send := 1040 \<rparr>)"
  by (simp add: probe_echo_def echo_of_wire_of)

text \<open>
  C4 on the code. The 64-byte echo arrives in three pieces of 48, 8 and 8 bytes. The code
  calls \<^verbatim>\<open>recv\<close> once for the header and once more for the remaining 16 bytes, gets 8 of them
  and goes on: \<^verbatim>\<open>bytes_received\<close> is 56, not 64, and the last 8 bytes stay queued for the
  next iteration, which takes them for the start of a header. The buffer is accepted by
  \<open>validate_packet\<close> all the same, since its tail still holds the bytes of the packet that was
  sent from it.
\<close>

theorem tcp_receive_stops_after_second_read:
  "length probe_echo = 64 \<and>
   unat (packet_size (of_wire probe_echo)) = 64 \<and>
   tcp_receive probe_sent
     [Seg (take 48 probe_echo), Seg (take 8 (drop 48 probe_echo)), Seg (drop 56 probe_echo)]
     = Inr (Go (probe_sent \<lparr> server_recv := 1040, server_send := 1040 \<rparr>, 56,
                [Seg (drop 56 probe_echo)])) \<and>
   drop 56 probe_echo = [12, 13, 14, 15, 0, 0, 0, 0]"
proof -
  let ?q = "probe_sent \<lparr> server_recv := 1040, server_send := 1040 \<rparr>"
  let ?r1 = "take 8 (drop 48 (wire_of ?q))"
  have lq: "length (wire_of ?q) = 64"
    using length_probe_sent by (simp add: length_wire_of)
  have "unat (packet_size ?q) = 64"
    by (simp add: probe_sent_def probe64_def)
  then have szq: "unat (packet_size ?q) = length (wire_of ?q)"
    by (simp only: lq)
  have same: "length (wire_of ?q) = length (wire_of probe_sent)"
    by (simp add: lq length_probe_sent)
  have big: "sizeof_packet_t \<le> length (wire_of ?q)" "length (wire_of ?q) < 2 ^ 31"
    by (simp_all add: length_probe_sent sizeof_packet_t_def)
  have r1: "?r1 \<noteq> []" "length ?r1 \<le> length (wire_of ?q) - sizeof_packet_t"
    using length_probe_sent by (auto simp add: sizeof_packet_t_def)
  have l1: "length ?r1 = 8" using length_probe_sent by simp
  have tail: "drop 56 (wire_of probe_sent) = drop 56 (wire_of ?q)"
    by (simp add: drop_wire_of payload_offset_def)
  have whole: "take 48 (wire_of ?q) @ ?r1 @ drop 56 (wire_of ?q) = wire_of ?q"
    by (simp add: take_add [symmetric] flip: append_assoc)
  have "tcp_receive probe_sent (Seg (take sizeof_packet_t (wire_of ?q)) # Seg ?r1 # [Seg (drop 56 (wire_of ?q))])
          = Inr (Go (of_wire (take sizeof_packet_t (wire_of ?q) @ ?r1 @
                       drop (sizeof_packet_t + length ?r1) (wire_of probe_sent)),
                    int (sizeof_packet_t + length ?r1), [Seg (drop 56 (wire_of ?q))]))"
    by (rule tcp_receive_two_reads [OF szq same big r1])
  then have rc: "tcp_receive probe_sent [Seg (take 48 (wire_of ?q)), Seg ?r1, Seg (drop 56 (wire_of ?q))]
          = Inr (Go (?q, 56, [Seg (drop 56 (wire_of ?q))]))"
    unfolding l1 sizeof_packet_t_def by (simp add: tail whole of_wire_wire_of)
  have left: "drop 56 (wire_of ?q) = [12, 13, 14, 15, 0, 0, 0, 0]"
    by (simp add: drop_wire_of payload_offset_def probe_sent_def probe64_def)
  have ps: "unat (packet_size (of_wire (wire_of ?q))) = 64"
    by (simp add: of_wire_wire_of probe_sent_def probe64_def)
  show ?thesis
    unfolding probe_echo_wire using lq ps rc left by (intro conjI)
qed

text \<open>
  Which replies give a sample: in either client an iteration that appends a sample has a
  reply in the buffer that \<open>validate_packet\<close> accepted (and, on the datagram transport, that
  carries the expected \<open>seq_num\<close>), and the sample is \<open>measure_sample\<close> of that reply.
\<close>

lemma client_iter_sample:
  "(tcp_client_iter ts off env i st = Inr (Go st') \<longrightarrow>
      samples st' = samples st \<or>
      (validate_packet (packet st') = Inr True \<and>
       samples st' = samples st @ [measure_sample ts off (packet st')])) \<and>
   (udp_client_iter ts off uenv i ust = Inr ust' \<longrightarrow>
      samples ust' = samples ust \<or>
      (validate_packet (packet ust') = Inr True \<and> seq_num (packet ust') = data_seq_num i \<and>
       samples ust' = samples ust @ [measure_sample ts off (packet ust')]))"
proof (intro conjI impI)
  {
    assume "tcp_client_iter ts off env i st = Inr (Go st')"
    then show "samples st' = samples st \<or>
      (validate_packet (packet st') = Inr True \<and>
       samples st' = samples st @ [measure_sample ts off (packet st')])"
      by (auto simp add: tcp_client_iter_def Let_def and_then_def
               split: sum.splits turn.splits prod.splits if_splits)
  }
  {
    assume "udp_client_iter ts off uenv i ust = Inr ust'"
    then show "samples ust' = samples ust \<or>
      (validate_packet (packet ust') = Inr True \<and> seq_num (packet ust') = data_seq_num i \<and>
       samples ust' = samples ust @ [measure_sample ts off (packet ust')])"
      by (auto simp add: udp_client_iter_def Let_def and_then_def
               split: sum.splits net_result.splits if_splits)
  }
qed

lemma real_unat_diff:
  "b \<le> a \<Longrightarrow> real (unat (a - b)) = real_of_int (uint a - uint b)" for a b :: u64
proof -
  assume le: "b \<le> a"
  then have "unat (a - b) = unat a - unat b" by (rule unat_sub)
  moreover have "unat b \<le> unat a" using le by (simp only: word_le_nat_alt)
  ultimately have "int (unat (a - b)) = int (unat a) - int (unat b)"
    by (simp only: of_nat_diff)
  then have "real_of_int (int (unat (a - b))) = real_of_int (uint a - uint b)"
    by simp
  then show ?thesis by simp
qed

lemma unat_corrected_diff:
  fixes a c :: u64 and off :: i64
  assumes "0 \<le> uint a - sint off - uint c" "uint a - sint off - uint c < 2 ^ 64"
  shows "real (unat ((a - off) - c)) = real_of_int ((uint a - sint off) - uint c)"
proof -
  define k where "k = uint a - sint off - uint c"
  have kb: "0 \<le> k" "k < 2 ^ 64"
    using assms by (simp_all add: k_def)
  have w: "(a - off) - c = word_of_int k"
    by (simp add: k_def)
  have "uint (word_of_int k :: u64) = k"
    using kb by (simp add: uint_word_of_int)
  then have "uint ((a - off) - c) = k"
    by (simp only: w)
  then have "int (unat ((a - off) - c)) = k"
    by simp
  then have "real_of_int (int (unat ((a - off) - c))) = real_of_int k"
    by (simp only:)
  then have "real (unat ((a - off) - c)) = real_of_int k"
    by simp
  then show ?thesis
    by (simp only: k_def)
qed

text \<open>
  Where the code agrees with the formulas: no timestamp that is subtracted is later than the
  one it is subtracted from, and with synchronisation the corrected latency is not negative.
\<close>

lemma measure_sample_in_range:
  assumes "server_recv p \<le> server_send p" "client_send p \<le> client_recv p"
    and "sync \<Longrightarrow> 0 \<le> uint (server_recv p) - sint off - uint (client_send p)"
    and "sync \<Longrightarrow> uint (server_recv p) - sint off - uint (client_send p) < 2 ^ 64"
  shows "sample_formula sync (sint off) p (measure_sample sync off p)"
proof -
  have a: "real (unat (server_send p - server_recv p))
             = real_of_int (uint (server_send p) - uint (server_recv p))"
    using assms(1) by (rule real_unat_diff)
  have b: "real (unat (client_recv p - client_send p))
             = real_of_int (uint (client_recv p) - uint (client_send p))"
    using assms(2) by (rule real_unat_diff)
  show ?thesis
  proof (cases sync)
    case True
    have c: "real (unat ((server_recv p - off) - client_send p))
               = real_of_int ((uint (server_recv p) - sint off) - uint (client_send p))"
      using assms(3,4) [OF True] by (rule unat_corrected_diff)
    show ?thesis
      unfolding sample_formula_def measure_sample_def Let_def
      by (simp only: True a b c sample.select_convs if_True simp_thms)
  next
    case False
    show ?thesis
      unfolding sample_formula_def measure_sample_def Let_def
      by (simp only: False a b sample.select_convs if_False simp_thms)
  qed
qed

lemma unsynchronised_latency_half_rtt:
  "server_send p = server_recv p \<Longrightarrow>
   one_way_latency (measure_sample False off p) = rtt (measure_sample False off p) / 2"
  by (simp add: measure_sample_def Let_def)



end
